theory Spec2Isabelle
  imports
    Complex_Main
    "HOL-Library.AList"
    "HOL-Library.Sublist"
    "HOL-Library.Char_ord"
    "HOL-Library.List_Lexorder"
begin

section \<open>The weather cache of \<^verbatim>\<open>src/utils/cache.ts\<close>\<close>

text \<open>
  The class \<^verbatim>\<open>WeatherCache\<close> is embedded with explicit state passing. A JavaScript
  \<^verbatim>\<open>Map\<close> iterates in insertion order, and \<^verbatim>\<open>ensureCapacity\<close> depends on that order,
  so both maps of the class are association lists: \<^verbatim>\<open>Map.set\<close> is \<open>AList.update\<close>
  (an existing key keeps its place, a new key goes to the end), \<^verbatim>\<open>Map.delete\<close> is
  \<open>AList.delete\<close>, \<^verbatim>\<open>Map.get\<close> is \<open>map_of\<close>.

  Every \<^verbatim>\<open>Date.now()\<close> the code reads is an argument of the operation that reads it;
  the values are integers (milliseconds). Coordinates are JavaScript numbers, that is
  IEEE 754 doubles: reals with a 53-bit significand. The product and the quotient of two
  numbers are rounded to a double by the platform. What the platform provides (the
  product and the quotient of two numbers, printing a number, printing a parameter value
  inside a template literal, the MD5 digest, the serialised size of a payload) is an
  argument of the function that uses it; payloads are JSON values, for which the size
  estimate returns a number. Console output is not part of the model.
\<close>

subsection \<open>Data\<close>

text \<open>
  \<^verbatim>\<open>enum CacheType\<close> is a string enum: at run time a cache type is its string, and the
  code concatenates it (\<^verbatim>\<open>type + ':'\<close>).
\<close>

type_synonym CacheType = string

definition CURRENT_WEATHER :: CacheType where
  "CURRENT_WEATHER = ''current_weather''"

definition FORECAST :: CacheType where
  "FORECAST = ''forecast''"

definition HOURLY_FORECAST :: CacheType where
  "HOURLY_FORECAST = ''hourly_forecast''"

definition GEOCODING :: CacheType where
  "GEOCODING = ''geocoding''"

record CacheConfig =
  cfg_ttl :: int
  maxSize :: int
  cleanupInterval :: int

record 'a CacheEntry =
  data :: 'a
  timestamp :: int
  ttl :: int
  accessCount :: int
  lastAccess :: int
  entry_size :: int

text \<open>The private field \<^verbatim>\<open>stats\<close> of the class.\<close>

record Counters =
  hits :: int
  misses :: int
  totalAccessTime :: int
  stats_accessCount :: int

text \<open>\<^verbatim>\<open>interface CacheStats\<close>, the result of \<^verbatim>\<open>getStats\<close>.\<close>

record CacheStats =
  cs_hits :: int
  cs_misses :: int
  entries :: int
  memoryUsage :: int
  hitRate :: real
  avgAccessTime :: real

record 'v CacheKeyParams =
  latitude :: real
  longitude :: real
  ctype :: CacheType
  parameters :: "(string \<times> 'v) list option"

record 'a WeatherCache =
  cache :: "(string \<times> 'a CacheEntry) list"
  stats :: Counters
  configs :: "(CacheType \<times> CacheConfig) list"

datatype error = TypeError

subsection \<open>Strings and numbers of the platform\<close>

text \<open>\<^verbatim>\<open>Math.round\<close>: the nearest integer, a half rounded towards \<open>+\<infinity>\<close>.\<close>

definition Math_round :: "real \<Rightarrow> int" where
  "Math_round x = \<lfloor>x + 1 / 2\<rfloor>"

text \<open>\<^verbatim>\<open>s.startsWith(p)\<close> and \<^verbatim>\<open>s.includes(p)\<close>.\<close>

definition startsWith :: "string \<Rightarrow> string \<Rightarrow> bool" where
  "startsWith s p = prefix p s"

fun str_includes :: "string \<Rightarrow> string \<Rightarrow> bool" where
  "str_includes [] p = (p = [])"
| "str_includes (c # cs) p = (prefix p (c # cs) \<or> str_includes cs p)"

text \<open>\<^verbatim>\<open>xs.join(sep)\<close>.\<close>

fun join :: "string \<Rightarrow> string list \<Rightarrow> string" where
  "join sep [] = []"
| "join sep [x] = x"
| "join sep (x # y # ys) = x @ sep @ join sep (y # ys)"

text \<open>
  \<^verbatim>\<open>xs.reduce(f)\<close> without an initial value: the first element starts the
  accumulator, and an empty array raises a \<^verbatim>\<open>TypeError\<close>.
\<close>

fun reduce :: "('b \<Rightarrow> 'b \<Rightarrow> 'b) \<Rightarrow> 'b list \<Rightarrow> error + 'b" where
  "reduce f [] = Inl TypeError"
| "reduce f (x # xs) = Inr (foldl f x xs)"

subsection \<open>The constructor\<close>

definition initializeConfigs :: "(CacheType \<times> CacheConfig) list \<Rightarrow> (CacheType \<times> CacheConfig) list" where
  "initializeConfigs c0 =
     (let c1 = AList.update CURRENT_WEATHER
                 \<lparr>cfg_ttl = 10 * 60 * 1000, maxSize = 1000, cleanupInterval = 5 * 60 * 1000\<rparr> c0;
          c2 = AList.update FORECAST
                 \<lparr>cfg_ttl = 60 * 60 * 1000, maxSize = 500, cleanupInterval = 15 * 60 * 1000\<rparr> c1;
          c3 = AList.update HOURLY_FORECAST
                 \<lparr>cfg_ttl = 30 * 60 * 1000, maxSize = 300, cleanupInterval = 10 * 60 * 1000\<rparr> c2;
          c4 = AList.update GEOCODING
                 \<lparr>cfg_ttl = 2 * 60 * 60 * 1000, maxSize = 2000, cleanupInterval = 30 * 60 * 1000\<rparr> c3
      in c4)"

definition new_WeatherCache :: "'a WeatherCache" where
  "new_WeatherCache =
     \<lparr>cache = [],
      stats = \<lparr>hits = 0, misses = 0, totalAccessTime = 0, stats_accessCount = 0\<rparr>,
      configs = initializeConfigs []\<rparr>"

subsection \<open>generateKey\<close>

text \<open>
  \<open>numberTimes\<close> and \<open>numberDivide\<close> are \<^verbatim>\<open>*\<close> and \<^verbatim>\<open>/\<close> on numbers,
  \<open>numberToString\<close> prints a number in a template literal, \<open>toString\<close> prints a
  parameter value there, \<open>md5hex\<close> is
  \<^verbatim>\<open>crypto.createHash('md5').update(s).digest('hex')\<close>.
  \<^verbatim>\<open>Object.keys(o).sort()\<close> is the sorted list of the keys; \<^verbatim>\<open>o[key]\<close> is the
  lookup. An object is truthy, also the empty one; an omitted field is not.
\<close>

definition generateKey ::
  "(real \<Rightarrow> real \<Rightarrow> real) \<Rightarrow> (real \<Rightarrow> real \<Rightarrow> real) \<Rightarrow> (real \<Rightarrow> string) \<Rightarrow>
   ('v \<Rightarrow> string) \<Rightarrow> (string \<Rightarrow> string) \<Rightarrow> 'v CacheKeyParams \<Rightarrow> string" where
  "generateKey numberTimes numberDivide numberToString toString md5hex params =
     (let lat = numberDivide (real_of_int (Math_round (numberTimes (latitude params) 10000))) 10000;
          lon = numberDivide (real_of_int (Math_round (numberTimes (longitude params) 10000))) 10000;
          paramString =
            (case parameters params of
               Some ps \<Rightarrow>
                 join ''|''
                   (map (\<lambda>key. key @ '':'' @
                           (case map_of ps key of Some v \<Rightarrow> toString v | None \<Rightarrow> ''undefined''))
                      (sort (map fst ps)))
             | None \<Rightarrow> []);
          baseKey = ctype params @ '':'' @ numberToString lat @ '','' @ numberToString lon
      in if paramString \<noteq> []
         then baseKey @ '':'' @ take 8 (md5hex paramString)
         else baseKey)"

subsection \<open>get\<close>

text \<open>
  \<open>start\<close>, \<open>now\<close> and \<open>fin\<close> are the three readings of the clock: on entry, after the
  lookup, and in the \<^verbatim>\<open>finally\<close> block. The result \<open>None\<close> is \<^verbatim>\<open>null\<close>.
\<close>

definition get ::
  "'a WeatherCache \<Rightarrow> string \<Rightarrow> CacheType \<Rightarrow> int \<Rightarrow> int \<Rightarrow> int \<Rightarrow> 'a option \<times> 'a WeatherCache" where
  "get s key type0 start now fin =
     (let (r, s1) =
            (case map_of (cache s) key of
               None \<Rightarrow> (None, s\<lparr>stats := (stats s)\<lparr>misses := misses (stats s) + 1\<rparr>\<rparr>)
             | Some entry \<Rightarrow>
                 if now - timestamp entry > ttl entry
                 then (None, s\<lparr>cache := AList.delete key (cache s),
                                stats := (stats s)\<lparr>misses := misses (stats s) + 1\<rparr>\<rparr>)
                 else (Some (data entry),
                       s\<lparr>cache := AList.update key
                                    (entry\<lparr>accessCount := accessCount entry + 1, lastAccess := now\<rparr>)
                                    (cache s),
                         stats := (stats s)\<lparr>hits := hits (stats s) + 1\<rparr>\<rparr>))
      in (r, s1\<lparr>stats := (stats s1)\<lparr>totalAccessTime := totalAccessTime (stats s1) + (fin - start),
                                      stats_accessCount := stats_accessCount (stats s1) + 1\<rparr>\<rparr>))"

subsection \<open>set and ensureCapacity\<close>

text \<open>
  The entries of one cache type, in the order of the map: the local constant
  \<^verbatim>\<open>typeEntries\<close> of \<^verbatim>\<open>ensureCapacity\<close>.
\<close>

definition typeEntries :: "CacheType \<Rightarrow> (string \<times> 'a CacheEntry) list \<Rightarrow> (string \<times> 'a CacheEntry) list" where
  "typeEntries type0 c = filter (\<lambda>(key, _). startsWith key (type0 @ '':'')) c"

definition ensureCapacity :: "CacheType \<Rightarrow> CacheConfig \<Rightarrow> 'a WeatherCache \<Rightarrow> error + 'a WeatherCache" where
  "ensureCapacity type0 config s =
     (if int (length (typeEntries type0 (cache s))) \<ge> maxSize config
      then (case reduce (\<lambda>oldest current.
                           if lastAccess (snd current) < lastAccess (snd oldest)
                           then current else oldest) (typeEntries type0 (cache s)) of
              Inl e \<Rightarrow> Inl e
            | Inr lruEntry \<Rightarrow> Inr (s\<lparr>cache := AList.delete (fst lruEntry) (cache s)\<rparr>))
      else Inr s)"

text \<open>
  \<^verbatim>\<open>set\<close>; \<open>estimateSize\<close> is the private method of that name (the byte length of the
  payload's JSON text). An unknown cache type is reported on the console and the call
  returns.
\<close>

definition set_entry ::
  "('a \<Rightarrow> int) \<Rightarrow> 'a WeatherCache \<Rightarrow> string \<Rightarrow> 'a \<Rightarrow> CacheType \<Rightarrow> int \<Rightarrow> error + 'a WeatherCache" where
  "set_entry estimateSize s key d cacheType now =
     (case map_of (configs s) cacheType of
        None \<Rightarrow> Inr s
      | Some config \<Rightarrow>
          (let entry = \<lparr>data = d, timestamp = now, ttl = cfg_ttl config, accessCount = 0,
                        lastAccess = now, entry_size = estimateSize d\<rparr>
           in case ensureCapacity cacheType config s of
                Inl e \<Rightarrow> Inl e
              | Inr s1 \<Rightarrow> Inr (s1\<lparr>cache := AList.update key entry (cache s1)\<rparr>)))"

subsection \<open>Invalidation\<close>

text \<open>
  \<^verbatim>\<open>invalidate(pattern?)\<close>: an omitted pattern and the empty string are both falsy and
  clear the store. The loop runs over the keys and deletes from the map as it goes.
\<close>

definition invalidate :: "'a WeatherCache \<Rightarrow> string option \<Rightarrow> int \<times> 'a WeatherCache" where
  "invalidate s pattern =
     (if pattern = None \<or> pattern = Some []
      then (int (length (cache s)), s\<lparr>cache := []\<rparr>)
      else (let (count, c) =
                  fold (\<lambda>key (count, c).
                          if str_includes key (the pattern)
                          then (count + 1, AList.delete key c) else (count, c))
                       (map fst (cache s)) (0, cache s)
            in (count, s\<lparr>cache := c\<rparr>)))"

definition invalidateByLocation ::
  "(real \<Rightarrow> real \<Rightarrow> real) \<Rightarrow> (real \<Rightarrow> real \<Rightarrow> real) \<Rightarrow> (real \<Rightarrow> string) \<Rightarrow>
   'a WeatherCache \<Rightarrow> real \<Rightarrow> real \<Rightarrow> int \<times> 'a WeatherCache" where
  "invalidateByLocation numberTimes numberDivide numberToString s latitude0 longitude0 =
     (let lat = numberDivide (real_of_int (Math_round (numberTimes latitude0 10000))) 10000;
          lon = numberDivide (real_of_int (Math_round (numberTimes longitude0 10000))) 10000;
          locationKey = numberToString lat @ '','' @ numberToString lon
      in invalidate s (Some locationKey))"

definition invalidateByType :: "'a WeatherCache \<Rightarrow> CacheType \<Rightarrow> int \<times> 'a WeatherCache" where
  "invalidateByType s type0 = invalidate s (Some (type0 @ '':''))"

subsection \<open>The sweep and the statistics\<close>

text \<open>
  \<^verbatim>\<open>cleanup\<close> walks the entries and deletes each expired one from the map; \<open>now\<close> is
  read once. What it logs afterwards changes nothing.
\<close>

definition cleanup :: "'a WeatherCache \<Rightarrow> int \<Rightarrow> 'a WeatherCache" where
  "cleanup s now =
     s\<lparr>cache := fold (\<lambda>(key, entry) c.
                        if now - timestamp entry > ttl entry then AList.delete key c else c)
                     (cache s) (cache s)\<rparr>"

definition getStats :: "'a WeatherCache \<Rightarrow> CacheStats" where
  "getStats s =
     (let entries0 = int (length (cache s));
          memoryUsage0 = foldl (\<lambda>total entry. total + entry_size entry) 0 (map snd (cache s));
          totalRequests = hits (stats s) + misses (stats s);
          hitRate0 = (if totalRequests > 0
                      then real_of_int (hits (stats s)) / real_of_int totalRequests else 0);
          avgAccessTime0 = (if stats_accessCount (stats s) > 0
                            then real_of_int (totalAccessTime (stats s))
                                 / real_of_int (stats_accessCount (stats s))
                            else 0)
      in \<lparr>cs_hits = hits (stats s), cs_misses = misses (stats s), entries = entries0,
          memoryUsage = memoryUsage0, hitRate = hitRate0, avgAccessTime = avgAccessTime0\<rparr>)"

subsection \<open>Sequences of calls\<close>

text \<open>
  A caller's calls of \<^verbatim>\<open>set\<close> and \<^verbatim>\<open>get\<close>, each with the clock readings it makes. A
  call that raises ends the sequence with its error.
\<close>

datatype 'a call =
  Set string 'a CacheType int
| Get string CacheType int int int

fun call_now :: "'a call \<Rightarrow> int" where
  "call_now (Set key d cacheType now) = now"
| "call_now (Get key type0 start now fin) = now"

fun call_type_is :: "CacheType \<Rightarrow> 'a call \<Rightarrow> bool" where
  "call_type_is t (Set key d cacheType now) = (cacheType = t)"
| "call_type_is t (Get key type0 start now fin) = True"

fun do_call :: "('a \<Rightarrow> int) \<Rightarrow> 'a WeatherCache \<Rightarrow> 'a call \<Rightarrow> error + 'a WeatherCache" where
  "do_call estimateSize s (Set key d cacheType now) = set_entry estimateSize s key d cacheType now"
| "do_call estimateSize s (Get key type0 start now fin) = Inr (snd (get s key type0 start now fin))"

fun run :: "('a \<Rightarrow> int) \<Rightarrow> 'a WeatherCache \<Rightarrow> 'a call list \<Rightarrow> error + 'a WeatherCache" where
  "run estimateSize s [] = Inr s"
| "run estimateSize s (c # cs) =
     (case do_call estimateSize s c of
        Inl e \<Rightarrow> Inl e
      | Inr s1 \<Rightarrow> run estimateSize s1 cs)"

text \<open>The comparison of \<^verbatim>\<open>ensureCapacity\<close>'s \<^verbatim>\<open>reduce\<close>, for the statements below.\<close>

abbreviation lru_pick :: "(string \<times> 'a CacheEntry) \<Rightarrow> (string \<times> 'a CacheEntry) \<Rightarrow> (string \<times> 'a CacheEntry)" where
  "lru_pick \<equiv> (\<lambda>oldest current. if lastAccess (snd current) < lastAccess (snd oldest) then current else oldest)"

text \<open>The entry that \<^verbatim>\<open>set\<close> builds.\<close>

abbreviation fresh_entry :: "('a \<Rightarrow> int) \<Rightarrow> CacheConfig \<Rightarrow> 'a \<Rightarrow> int \<Rightarrow> 'a CacheEntry" where
  "fresh_entry estimateSize config d now \<equiv>
     \<lparr>data = d, timestamp = now, ttl = cfg_ttl config, accessCount = 0,
      lastAccess = now, entry_size = estimateSize d\<rparr>"

subsection \<open>Concrete inputs\<close>

text \<open>
  An instance of the platform for the concrete inputs below. \<open>numberToString4\<close> prints
  the numbers \<^verbatim>\<open>generateKey\<close> prints, the doubles nearest to the multiples of
  \<open>1/10000\<close>, as JavaScript does (the shortest text that denotes the double): a sign,
  the integer part, and the decimals without trailing zeros (\<open>print4\<close>, from the
  number of ten-thousandths). A parameter value
  and a payload are given by their text, \<open>json_size\<close> is the length of that text, and
  \<open>md5_known\<close> holds the MD5 digests of the parameter strings that occur.
\<close>

definition digit :: "nat \<Rightarrow> char" where
  "digit n = ''0123456789'' ! n"

fun decimal :: "nat \<Rightarrow> string" where
  "decimal n = (if n < 10 then [digit n] else decimal (n div 10) @ [digit (n mod 10)])"

declare decimal.simps [simp del]

definition fraction4 :: "nat \<Rightarrow> string" where
  "fraction4 m = rev (dropWhile (\<lambda>c. c = CHR ''0'') (rev (tl (decimal (10000 + m mod 10000)))))"

definition print4 :: "int \<Rightarrow> string" where
  "print4 n =
     (if n < 0 then ''-'' else []) @ decimal (nat \<bar>n\<bar> div 10000)
     @ (if fraction4 (nat \<bar>n\<bar>) = [] then [] else ''.'' @ fraction4 (nat \<bar>n\<bar>))"

definition numberToString4 :: "real \<Rightarrow> string" where
  "numberToString4 x = print4 (Math_round (x * 10000))"

definition json_size :: "string \<Rightarrow> int" where
  "json_size d = int (length d)"

definition plain :: "string \<Rightarrow> string" where
  "plain v = v"

definition md5_known :: "string \<Rightarrow> string" where
  "md5_known s =
     (if s = ''unit:celsius'' then ''d2fc24e04d09ccb2bf16f68a605c5adf''
      else if s = ''days:7|unit:celsius'' then ''037554185dba75fa9fb6c6b5c4bce8fa''
      else replicate 32 (CHR ''0''))"

text \<open>
  A store in which the type \<open>hourly_forecast\<close> is full: 300 entries, for the latitudes
  \<open>0, 0.0001, \<dots>, 0.0299\<close> at longitude \<open>0\<close>, written at the times \<open>0, 1, \<dots>, 299\<close>
  and not read since. Each of the stores below is what the constructor's cache becomes
  after the calls of \<^verbatim>\<open>set\<close> that write its entries.
\<close>

definition hourly_key :: "nat \<Rightarrow> string" where
  "hourly_key i =
     HOURLY_FORECAST @ '':'' @ numberToString4 (real i / 10000) @ '','' @ numberToString4 0"

definition hourly_entry :: "nat \<Rightarrow> string CacheEntry" where
  "hourly_entry i =
     \<lparr>data = ''{}'', timestamp = int i, ttl = 30 * 60 * 1000, accessCount = 0,
      lastAccess = int i, entry_size = 2\<rparr>"

definition full_hourly :: "string WeatherCache" where
  "full_hourly =
     new_WeatherCache\<lparr>cache := map (\<lambda>i. (hourly_key i, hourly_entry i)) [0..<300]\<rparr>"

text \<open>
  A store with two entries: Paris under \<open>current_weather\<close>, written at time 1000, and
  London under \<open>forecast\<close>, written at time 2000.
\<close>

definition paris_key :: string where
  "paris_key = ''current_weather:48.8566,2.3522''"

definition london_key :: string where
  "london_key = ''forecast:51.5074,-0.1278''"

definition paris_entry :: "string CacheEntry" where
  "paris_entry =
     \<lparr>data = ''{}'', timestamp = 1000, ttl = 10 * 60 * 1000, accessCount = 0,
      lastAccess = 1000, entry_size = 2\<rparr>"

definition london_entry :: "string CacheEntry" where
  "london_entry =
     \<lparr>data = ''[]'', timestamp = 2000, ttl = 60 * 60 * 1000, accessCount = 0,
      lastAccess = 2000, entry_size = 2\<rparr>"

definition two_cities :: "string WeatherCache" where
  "two_cities = new_WeatherCache\<lparr>cache := [(paris_key, paris_entry), (london_key, london_entry)]\<rparr>"

text \<open>
  A store with the forecast and the hourly forecast of Paris, both written at time 1000.
\<close>

definition paris_forecasts :: "string WeatherCache" where
  "paris_forecasts =
     new_WeatherCache\<lparr>cache :=
       [(''forecast:48.8566,2.3522'',
         \<lparr>data = ''[]'', timestamp = 1000, ttl = 60 * 60 * 1000, accessCount = 0,
          lastAccess = 1000, entry_size = 2\<rparr>),
        (''hourly_forecast:48.8566,2.3522'',
         \<lparr>data = ''[]'', timestamp = 1000, ttl = 30 * 60 * 1000, accessCount = 0,
          lastAccess = 1000, entry_size = 2\<rparr>)]\<rparr>"

subsection \<open>Invariants of the store\<close>

text \<open>
  The invariants of the store that the proofs carry: every entry was written no later
  than it was last read, and last read no later than \<open>clock\<close>; and every configured
  limit is at least 1.
\<close>

definition recent :: "int \<Rightarrow> 'a WeatherCache \<Rightarrow> bool" where
  "recent clock s = (\<forall>(k, e) \<in> set (cache s). timestamp e \<le> lastAccess e \<and> lastAccess e \<le> clock)"

definition positive_limits :: "'a WeatherCache \<Rightarrow> bool" where
  "positive_limits s = (\<forall>(t, cfg) \<in> set (configs s). 1 \<le> maxSize cfg)"

subsection \<open>Doubles\<close>

text \<open>
  The instance of \<open>numberTimes\<close> and \<open>numberDivide\<close> for the concrete inputs: IEEE 754
  binary64 arithmetic with the default rounding. \<open>to_double\<close> rounds a real to the
  nearest number with a 53-bit significand, a tie to the even significand; it is also
  the number that a decimal literal denotes. The exponent is not bounded (no overflow, no
  subnormal numbers), and there are no infinities and no NaN: coordinates and their
  products with 10000 are far inside the normal range.
\<close>

definition round_half_even :: "real \<Rightarrow> int" where
  "round_half_even r =
     (if r - real_of_int \<lfloor>r\<rfloor> < 1 / 2 then \<lfloor>r\<rfloor>
      else if r - real_of_int \<lfloor>r\<rfloor> > 1 / 2 then \<lfloor>r\<rfloor> + 1
      else if even \<lfloor>r\<rfloor> then \<lfloor>r\<rfloor> else \<lfloor>r\<rfloor> + 1)"

definition binade :: "real \<Rightarrow> int" where
  "binade x = \<lfloor>log 2 \<bar>x\<bar>\<rfloor>"

definition to_double :: "real \<Rightarrow> real" where
  "to_double x =
     (if x = 0 then 0
      else real_of_int (round_half_even (x / 2 powr real_of_int (binade x - 52)))
           * 2 powr real_of_int (binade x - 52))"

definition double_times :: "real \<Rightarrow> real \<Rightarrow> real" where
  "double_times x y = to_double (x * y)"

definition double_divide :: "real \<Rightarrow> real \<Rightarrow> real" where
  "double_divide x y = to_double (x / y)"

text \<open>
  The coordinates of the concrete inputs, as the numbers their decimal literals denote:
  Paris, two perturbations of its coordinates, a latitude whose text is the end of the
  text of the latitude of Paris, and two latitudes on the two sides of a rounding
  boundary.
\<close>

definition paris_lat :: real where
  "paris_lat = to_double 48.8566"

definition paris_lon :: real where
  "paris_lon = to_double 2.3522"

definition near_paris_lat :: real where
  "near_paris_lat = to_double 48.85661"

definition near_paris_lon :: real where
  "near_paris_lon = to_double 2.35219"

definition past_paris_lat :: real where
  "past_paris_lat = to_double 48.85666"

definition other_lat :: real where
  "other_lat = to_double 8.8566"

definition boundary_lat :: real where
  "boundary_lat = to_double 48.80085"

definition past_boundary_lat :: real where
  "past_boundary_lat = to_double 48.80091"

subsection \<open>Coordinates near a value with four decimals\<close>

text \<open>
  \<open>near_grid numberTimes x n\<close>: the coordinate \<open>x\<close> is within \<open>0.000049\<close> of \<open>n / 10000\<close>,
  and the product \<^verbatim>\<open>x * 10000\<close> that the platform computes is within \<open>0.001\<close> of the exact
  product.
\<close>

definition near_grid :: "(real \<Rightarrow> real \<Rightarrow> real) \<Rightarrow> real \<Rightarrow> int \<Rightarrow> bool" where
  "near_grid numberTimes x n =
     (\<bar>numberTimes x 10000 - x * 10000\<bar> \<le> 1 / 1000
      \<and> \<bar>x * 10000 - real_of_int n\<bar> \<le> 49 / 100)"

section \<open>Auxiliary facts\<close>

subsection \<open>Entries of a type, deletion and update\<close>

lemma typeEntries_keys:
  "map fst (typeEntries t c) = filter (\<lambda>k. startsWith k (t @ '':'')) (map fst c)"
  by (induction c) (auto simp: typeEntries_def)

lemma typeEntries_delete:
  "typeEntries t (AList.delete k c) = AList.delete k (typeEntries t c)"
  by (induction c) (auto simp: typeEntries_def)

lemma length_delete_less:
  "(k, e) \<in> set c \<Longrightarrow> length (AList.delete k c) < length c"
proof (induction c)
  case Nil
  then show ?case by simp
next
  case (Cons a c)
  have le: "length (AList.delete k c) \<le> length c" by (rule length_delete_le)
  show ?case
  proof (cases "fst a = k")
    case True
    then show ?thesis using le by (simp add: less_Suc_eq_le)
  next
    case False
    then have "(k, e) \<in> set c" using Cons.prems by auto
    then show ?thesis using Cons.IH False by simp
  qed
qed

lemma length_typeEntries_update:
  "length (typeEntries t (AList.update k e c)) \<le> Suc (length (typeEntries t c))"
  by (induction c) (auto simp: typeEntries_def)

lemma length_typeEntries_update_present:
  "k \<in> fst ` set c \<Longrightarrow> length (typeEntries t (AList.update k e c)) = length (typeEntries t c)"
  by (induction c) (auto simp: typeEntries_def)


lemma lru_pick_first_min:
  "\<exists>pre post. x # xs = pre @ foldl lru_pick x xs # post
     \<and> (\<forall>p \<in> set pre. lastAccess (snd (foldl lru_pick x xs)) < lastAccess (snd p))
     \<and> (\<forall>p \<in> set post. lastAccess (snd (foldl lru_pick x xs)) \<le> lastAccess (snd p))"
proof (induction xs rule: rev_induct)
  case Nil
  show ?case
    by (rule exI[of _ "[]"], rule exI[of _ "[]"]) simp
next
  case (snoc y ys)
  then obtain pre post where split: "x # ys = pre @ foldl lru_pick x ys # post"
    and pre: "\<forall>p \<in> set pre. lastAccess (snd (foldl lru_pick x ys)) < lastAccess (snd p)"
    and post: "\<forall>p \<in> set post. lastAccess (snd (foldl lru_pick x ys)) \<le> lastAccess (snd p)"
    by blast
  let ?v = "foldl lru_pick x ys"
  show ?case
  proof (cases "lastAccess (snd y) < lastAccess (snd ?v)")
    case True
    then have v': "foldl lru_pick x (ys @ [y]) = y" by simp
    have all: "\<forall>p \<in> set (x # ys). lastAccess (snd y) < lastAccess (snd p)"
    proof
      fix p
      assume "p \<in> set (x # ys)"
      then have "p \<in> set (pre @ ?v # post)" by (simp only: split)
      then consider "p \<in> set pre" | "p = ?v" | "p \<in> set post" by auto
      then show "lastAccess (snd y) < lastAccess (snd p)"
      proof cases
        case 1
        then have "lastAccess (snd ?v) < lastAccess (snd p)" using pre by blast
        then show ?thesis using True by linarith
      next
        case 2
        then show ?thesis using True by simp
      next
        case 3
        then have "lastAccess (snd ?v) \<le> lastAccess (snd p)" using post by blast
        then show ?thesis using True by linarith
      qed
    qed
    have "x # (ys @ [y]) = (x # ys) @ foldl lru_pick x (ys @ [y]) # []
        \<and> (\<forall>p \<in> set (x # ys). lastAccess (snd (foldl lru_pick x (ys @ [y]))) < lastAccess (snd p))
        \<and> (\<forall>p \<in> set []. lastAccess (snd (foldl lru_pick x (ys @ [y]))) \<le> lastAccess (snd p))"
      using all by (simp only: v') simp
    then show ?thesis by blast
  next
    case False
    then have v': "foldl lru_pick x (ys @ [y]) = ?v" by simp
    have "x # (ys @ [y]) = pre @ ?v # (post @ [y])" using split by simp
    moreover have "\<forall>p \<in> set (post @ [y]). lastAccess (snd ?v) \<le> lastAccess (snd p)"
    proof
      fix p
      assume "p \<in> set (post @ [y])"
      then consider "p \<in> set post" | "p = y" by auto
      then show "lastAccess (snd ?v) \<le> lastAccess (snd p)"
      proof cases
        case 1
        then show ?thesis using post by blast
      next
        case 2
        then show ?thesis using False by simp
      qed
    qed
    ultimately have "x # (ys @ [y]) = pre @ foldl lru_pick x (ys @ [y]) # (post @ [y])
        \<and> (\<forall>p \<in> set pre. lastAccess (snd (foldl lru_pick x (ys @ [y]))) < lastAccess (snd p))
        \<and> (\<forall>p \<in> set (post @ [y]). lastAccess (snd (foldl lru_pick x (ys @ [y]))) \<le> lastAccess (snd p))"
      using pre by (simp only: v') 
    then show ?thesis by blast
  qed
qed

subsection \<open>What set does to the store\<close>

lemma ensureCapacity_room:
  "int (length (typeEntries t (cache s))) < maxSize cfg \<Longrightarrow> ensureCapacity t cfg s = Inr s"
  by (simp add: ensureCapacity_def)

lemma ensureCapacity_evicts:
  assumes full: "maxSize cfg \<le> int (length (typeEntries t (cache s)))"
      and ne: "typeEntries t (cache s) \<noteq> []"
  shows "\<exists>pre v post. typeEntries t (cache s) = pre @ v # post
           \<and> (\<forall>p \<in> set pre. lastAccess (snd v) < lastAccess (snd p))
           \<and> (\<forall>p \<in> set post. lastAccess (snd v) \<le> lastAccess (snd p))
           \<and> ensureCapacity t cfg s = Inr (s\<lparr>cache := AList.delete (fst v) (cache s)\<rparr>)"
proof -
  from ne obtain x xs where xs: "typeEntries t (cache s) = x # xs"
    by (cases "typeEntries t (cache s)") auto
  obtain pre post where split: "x # xs = pre @ foldl lru_pick x xs # post"
    and pre: "\<forall>p \<in> set pre. lastAccess (snd (foldl lru_pick x xs)) < lastAccess (snd p)"
    and post: "\<forall>p \<in> set post. lastAccess (snd (foldl lru_pick x xs)) \<le> lastAccess (snd p)"
    using lru_pick_first_min[of x xs] by blast
  have "ensureCapacity t cfg s = Inr (s\<lparr>cache := AList.delete (fst (foldl lru_pick x xs)) (cache s)\<rparr>)"
    using full by (simp add: ensureCapacity_def xs)
  then have "typeEntries t (cache s) = pre @ foldl lru_pick x xs # post
           \<and> (\<forall>p \<in> set pre. lastAccess (snd (foldl lru_pick x xs)) < lastAccess (snd p))
           \<and> (\<forall>p \<in> set post. lastAccess (snd (foldl lru_pick x xs)) \<le> lastAccess (snd p))
           \<and> ensureCapacity t cfg s = Inr (s\<lparr>cache := AList.delete (fst (foldl lru_pick x xs)) (cache s)\<rparr>)"
    using split pre post by (simp only: xs) 
  then show ?thesis by (intro exI)
qed

lemma set_entry_room:
  assumes "map_of (configs s) t = Some cfg"
      and "int (length (typeEntries t (cache s))) < maxSize cfg"
  shows "set_entry est s key d t now =
           Inr (s\<lparr>cache := AList.update key (fresh_entry est cfg d now) (cache s)\<rparr>)"
  using assms by (simp add: set_entry_def ensureCapacity_room)

lemma set_entry_evicts:
  assumes cfg: "map_of (configs s) t = Some cfg"
      and full: "maxSize cfg \<le> int (length (typeEntries t (cache s)))"
      and ne: "typeEntries t (cache s) \<noteq> []"
  shows "\<exists>pre v post. typeEntries t (cache s) = pre @ v # post
           \<and> (\<forall>p \<in> set pre. lastAccess (snd v) < lastAccess (snd p))
           \<and> (\<forall>p \<in> set post. lastAccess (snd v) \<le> lastAccess (snd p))
           \<and> set_entry est s key d t now =
               Inr (s\<lparr>cache := AList.update key (fresh_entry est cfg d now)
                                  (AList.delete (fst v) (cache s))\<rparr>)"
proof -
  obtain pre v post where split: "typeEntries t (cache s) = pre @ v # post"
    and pre: "\<forall>p \<in> set pre. lastAccess (snd v) < lastAccess (snd p)"
    and post: "\<forall>p \<in> set post. lastAccess (snd v) \<le> lastAccess (snd p)"
    and ens: "ensureCapacity t cfg s = Inr (s\<lparr>cache := AList.delete (fst v) (cache s)\<rparr>)"
    using ensureCapacity_evicts[OF full ne] by blast
  have "set_entry est s key d t now =
               Inr (s\<lparr>cache := AList.update key (fresh_entry est cfg d now)
                                  (AList.delete (fst v) (cache s))\<rparr>)"
    by (simp add: set_entry_def cfg ens)
  with split pre post show ?thesis by blast
qed

text \<open>With a positive limit, a full type has an entry, so \<open>reduce\<close> never raises.\<close>

lemma full_nonempty:
  "1 \<le> maxSize cfg \<Longrightarrow> maxSize cfg \<le> int (length (typeEntries t (cache s)))
     \<Longrightarrow> typeEntries t (cache s) \<noteq> []"
  by auto

lemma set_entry_bound:
  assumes cfg: "map_of (configs s) t = Some cfg"
      and pos: "1 \<le> maxSize cfg"
      and inv: "int (length (typeEntries t (cache s))) \<le> maxSize cfg"
  shows "\<exists>s'. set_entry est s key d t now = Inr s'
            \<and> int (length (typeEntries t (cache s'))) \<le> maxSize cfg
            \<and> configs s' = configs s"
proof (cases "int (length (typeEntries t (cache s))) < maxSize cfg")
  case True
  have "length (typeEntries t (AList.update key (fresh_entry est cfg d now) (cache s)))
          \<le> Suc (length (typeEntries t (cache s)))"
    by (rule length_typeEntries_update)
  then have "int (length (typeEntries t (AList.update key (fresh_entry est cfg d now) (cache s))))
          \<le> maxSize cfg" using True by linarith
  then show ?thesis using set_entry_room[OF cfg True] by simp
next
  case False
  then have full: "maxSize cfg \<le> int (length (typeEntries t (cache s)))" by simp
  have ne: "typeEntries t (cache s) \<noteq> []" using full_nonempty[OF pos full] .
  obtain pre v post where split: "typeEntries t (cache s) = pre @ v # post"
    and res: "set_entry est s key d t now =
               Inr (s\<lparr>cache := AList.update key (fresh_entry est cfg d now)
                                  (AList.delete (fst v) (cache s))\<rparr>)"
    using set_entry_evicts[OF cfg full ne] by blast
  have "v \<in> set (typeEntries t (cache s))" by (simp add: split)
  then have "(fst v, snd v) \<in> set (typeEntries t (cache s))" by simp
  then have "length (AList.delete (fst v) (typeEntries t (cache s))) < length (typeEntries t (cache s))"
    by (rule length_delete_less)
  then have "length (typeEntries t (AList.delete (fst v) (cache s))) < length (typeEntries t (cache s))"
    by (simp only: typeEntries_delete)
  moreover have "length (typeEntries t (AList.update key (fresh_entry est cfg d now) (AList.delete (fst v) (cache s))))
          \<le> Suc (length (typeEntries t (AList.delete (fst v) (cache s))))"
    by (rule length_typeEntries_update)
  ultimately have "int (length (typeEntries t (AList.update key (fresh_entry est cfg d now) (AList.delete (fst v) (cache s)))))
          \<le> maxSize cfg" using inv by linarith
  then show ?thesis using res by simp
qed

lemma get_configs: "configs (snd (get s key ty start now fin)) = configs s"
  by (simp add: get_def split: option.splits)

lemma get_typeEntries_le:
  "length (typeEntries t (cache (snd (get s key ty start now fin)))) \<le> length (typeEntries t (cache s))"
proof (cases "map_of (cache s) key")
  case None
  then show ?thesis by (simp add: get_def)
next
  case (Some e)
  then have "key \<in> fst ` set (cache s)" by (metis map_of_eq_None_iff option.distinct(1))
  then have upd: "\<And>e'. length (typeEntries t (AList.update key e' (cache s))) = length (typeEntries t (cache s))"
    by (rule length_typeEntries_update_present)
  have del: "length (typeEntries t (AList.delete key (cache s))) \<le> length (typeEntries t (cache s))"
    by (simp only: typeEntries_delete length_delete_le)
  show ?thesis using upd del by (simp add: get_def Some)
qed

lemma run_bound:
  assumes "map_of (configs s) t = Some cfg"
      and "1 \<le> maxSize cfg"
      and "int (length (typeEntries t (cache s))) \<le> maxSize cfg"
      and "\<forall>c \<in> set calls. call_type_is t c"
  shows "\<exists>s'. run est s calls = Inr s'
            \<and> int (length (typeEntries t (cache s'))) \<le> maxSize cfg"
  using assms
proof (induction calls arbitrary: s)
  case Nil
  then show ?case by simp
next
  case (Cons c calls)
  have "\<exists>s1. do_call est s c = Inr s1
            \<and> int (length (typeEntries t (cache s1))) \<le> maxSize cfg
            \<and> configs s1 = configs s"
  proof (cases c)
    case (Set key d ty now)
    then have "ty = t" using Cons.prems(4) by simp
    then show ?thesis using set_entry_bound[OF Cons.prems(1,2,3)] Set by simp
  next
    case (Get key ty start now fin)
    have "int (length (typeEntries t (cache (snd (get s key ty start now fin))))) \<le> maxSize cfg"
      using get_typeEntries_le[of t s key ty start now fin] Cons.prems(3) by linarith
    then show ?thesis using Get get_configs by simp
  qed
  then obtain s1 where s1: "do_call est s c = Inr s1"
      and b1: "int (length (typeEntries t (cache s1))) \<le> maxSize cfg"
      and c1: "configs s1 = configs s" by blast
  have "\<exists>s'. run est s1 calls = Inr s' \<and> int (length (typeEntries t (cache s'))) \<le> maxSize cfg"
    using Cons.IH[of s1] Cons.prems c1 b1 by simp
  then show ?case using s1 by simp
qed

lemma configs_new: "map_of (configs new_WeatherCache) t =
   (if t = GEOCODING then Some \<lparr>cfg_ttl = 7200000, maxSize = 2000, cleanupInterval = 1800000\<rparr>
    else if t = HOURLY_FORECAST then Some \<lparr>cfg_ttl = 1800000, maxSize = 300, cleanupInterval = 600000\<rparr>
    else if t = FORECAST then Some \<lparr>cfg_ttl = 3600000, maxSize = 500, cleanupInterval = 900000\<rparr>
    else if t = CURRENT_WEATHER then Some \<lparr>cfg_ttl = 600000, maxSize = 1000, cleanupInterval = 300000\<rparr>
    else None)"
  by (simp add: new_WeatherCache_def initializeConfigs_def update_conv' CURRENT_WEATHER_def FORECAST_def HOURLY_FORECAST_def GEOCODING_def)

lemma configs_new_positive:
  "map_of (configs new_WeatherCache) t = Some cfg \<Longrightarrow> 1 \<le> maxSize cfg"
  by (auto simp: configs_new split: if_splits)

subsection \<open>Evaluating the concrete inputs\<close>

lemmas print_simps =
  numberToString4_def Math_round_def print4_def fraction4_def decimal.simps digit_def

lemmas type_defs = CURRENT_WEATHER_def FORECAST_def HOURLY_FORECAST_def GEOCODING_def

subsection \<open>What get and cleanup do\<close>

lemma get_absent:
  "map_of (cache s) key = None \<Longrightarrow>
   get s key ty start now fin =
     (None, s\<lparr>stats := (stats s)\<lparr>misses := misses (stats s) + 1,
                              totalAccessTime := totalAccessTime (stats s) + (fin - start),
                              stats_accessCount := stats_accessCount (stats s) + 1\<rparr>\<rparr>)"
  by (simp add: get_def)

lemma get_expired:
  "map_of (cache s) key = Some e \<Longrightarrow> now - timestamp e > ttl e \<Longrightarrow>
   get s key ty start now fin =
     (None, s\<lparr>cache := AList.delete key (cache s),
              stats := (stats s)\<lparr>misses := misses (stats s) + 1,
                              totalAccessTime := totalAccessTime (stats s) + (fin - start),
                              stats_accessCount := stats_accessCount (stats s) + 1\<rparr>\<rparr>)"
  by (simp add: get_def)

lemma get_hit:
  "map_of (cache s) key = Some e \<Longrightarrow> now - timestamp e \<le> ttl e \<Longrightarrow>
   get s key ty start now fin =
     (Some (data e),
      s\<lparr>cache := AList.update key (e\<lparr>accessCount := accessCount e + 1, lastAccess := now\<rparr>) (cache s),
        stats := (stats s)\<lparr>hits := hits (stats s) + 1,
                        totalAccessTime := totalAccessTime (stats s) + (fin - start),
                        stats_accessCount := stats_accessCount (stats s) + 1\<rparr>\<rparr>)"
  by (simp add: get_def)

lemma fold_delete_filter:
  "fold (\<lambda>(key, entry) c. if P entry then AList.delete key c else c) xs c
     = filter (\<lambda>(k, e). \<not> (\<exists>e'. (k, e') \<in> set xs \<and> P e')) c"
proof (induction xs arbitrary: c)
  case Nil
  then show ?case by simp
next
  case (Cons x xs)
  obtain k e where x: "x = (k, e)" by (cases x)
  show ?case
  proof (cases "P e")
    case True
    have "filter (\<lambda>(k', e0). \<not> (\<exists>e'. (k', e') \<in> set xs \<and> P e')) (AList.delete k c)
        = filter (\<lambda>(k', e0). \<not> (\<exists>e'. (k', e') \<in> set ((k, e) # xs) \<and> P e')) c"
      using True by (induction c) auto
    then show ?thesis using True by (simp add: x Cons.IH)
  next
    case False
    have "filter (\<lambda>(k', e0). \<not> (\<exists>e'. (k', e') \<in> set xs \<and> P e')) c
        = filter (\<lambda>(k', e0). \<not> (\<exists>e'. (k', e') \<in> set ((k, e) # xs) \<and> P e')) c"
      using False by (induction c) auto
    then show ?thesis using False by (simp add: x Cons.IH)
  qed
qed

lemma cleanup_filter:
  assumes "distinct (map fst (cache s))"
  shows "cache (cleanup s now)
           = filter (\<lambda>(k, e). \<not> (now - timestamp e > ttl e)) (cache s)"
proof -
  have "filter (\<lambda>(k, e). \<not> (\<exists>e'. (k, e') \<in> set (cache s) \<and> now - timestamp e' > ttl e')) (cache s)
           = filter (\<lambda>(k, e). \<not> (now - timestamp e > ttl e)) (cache s)"
  proof (rule filter_cong)
    fix x
    assume x: "x \<in> set (cache s)"
    obtain k e where ke: "x = (k, e)" by (cases x)
    have "\<And>e'. (k, e') \<in> set (cache s) \<Longrightarrow> e' = e"
      using eq_key_imp_eq_value[OF assms] x ke by blast
    then have "(\<exists>e'. (k, e') \<in> set (cache s) \<and> now - timestamp e' > ttl e')
                = (now - timestamp e > ttl e)"
      using x ke by blast
    then show "(case x of (k, e) \<Rightarrow> \<not> (\<exists>e'. (k, e') \<in> set (cache s) \<and> now - timestamp e' > ttl e'))
             = (case x of (k, e) \<Rightarrow> \<not> (now - timestamp e > ttl e))"
      unfolding ke by auto
  qed simp
  then show ?thesis
    by (simp add: cleanup_def fold_delete_filter[where P = "\<lambda>entry. now - timestamp entry > ttl entry"])
qed

lemmas city_defs = two_cities_def paris_key_def london_key_def paris_entry_def london_entry_def

lemma two_cities_reached:
  "run json_size new_WeatherCache
     [Set paris_key ''{}'' CURRENT_WEATHER 1000, Set london_key ''[]'' FORECAST 2000]
   = Inr two_cities"
  by (simp add: set_entry_def ensureCapacity_def typeEntries_def startsWith_def configs_new
        new_WeatherCache_def[where 'a = string, THEN arg_cong[where f = cache]]
        city_defs json_size_def type_defs)

subsection \<open>The recency invariant\<close>

lemma set_update_subset: "set (AList.update k v c) \<subseteq> insert (k, v) (set c)"
  by (induction c) auto

lemma set_delete_subset: "set (AList.delete k c) \<subseteq> set c"
  by (induction c) auto

lemma positive_limits_new: "positive_limits new_WeatherCache"
  by (simp add: positive_limits_def new_WeatherCache_def initializeConfigs_def type_defs)

lemma positive_limitsD:
  "positive_limits s \<Longrightarrow> map_of (configs s) t = Some cfg \<Longrightarrow> 1 \<le> maxSize cfg"
  unfolding positive_limits_def by (drule map_of_SomeD) blast

lemma set_entry_result:
  assumes cfg: "map_of (configs s) ty = Some cfg"
      and pos: "1 \<le> maxSize cfg"
  shows "\<exists>c'. set c' \<subseteq> set (cache s)
           \<and> set_entry est s key d ty now
               = Inr (s\<lparr>cache := AList.update key (fresh_entry est cfg d now) c'\<rparr>)"
proof (cases "int (length (typeEntries ty (cache s))) < maxSize cfg")
  case True
  have "set (cache s) \<subseteq> set (cache s)" by simp
  with set_entry_room[OF cfg True, of est key d now] show ?thesis by blast
next
  case False
  then have full: "maxSize cfg \<le> int (length (typeEntries ty (cache s)))" by simp
  have ne: "typeEntries ty (cache s) \<noteq> []" using full_nonempty[OF pos full] .
  obtain pre v post where "typeEntries ty (cache s) = pre @ v # post"
    and "set_entry est s key d ty now =
               Inr (s\<lparr>cache := AList.update key (fresh_entry est cfg d now)
                                  (AList.delete (fst v) (cache s))\<rparr>)"
    using set_entry_evicts[OF cfg full ne, of est key d now] by blast
  moreover have "set (AList.delete (fst v) (cache s)) \<subseteq> set (cache s)"
    by (rule set_delete_subset)
  ultimately show ?thesis by blast
qed

lemma recent_mono: "recent clock s \<Longrightarrow> clock \<le> now \<Longrightarrow> recent now s"
  unfolding recent_def by fastforce

lemma set_entry_recent:
  assumes pos: "positive_limits s"
      and inv: "recent clock s"
      and le: "clock \<le> now"
  shows "\<exists>s'. set_entry est s key d ty now = Inr s' \<and> recent now s' \<and> configs s' = configs s"
proof (cases "map_of (configs s) ty")
  case None
  then have "set_entry est s key d ty now = Inr s" by (simp add: set_entry_def)
  then show ?thesis using recent_mono[OF inv le] by simp
next
  case (Some cfg)
  have p: "1 \<le> maxSize cfg" using positive_limitsD[OF pos Some] .
  obtain c' where sub: "set c' \<subseteq> set (cache s)"
    and res: "set_entry est s key d ty now
               = Inr (s\<lparr>cache := AList.update key (fresh_entry est cfg d now) c'\<rparr>)"
    using set_entry_result[OF Some p, of est key d now] by blast
  have "\<forall>(k, e) \<in> set (AList.update key (fresh_entry est cfg d now) c').
          timestamp e \<le> lastAccess e \<and> lastAccess e \<le> now"
  proof (clarify)
    fix k e
    assume "(k, e) \<in> set (AList.update key (fresh_entry est cfg d now) c')"
    then have "(k, e) = (key, fresh_entry est cfg d now) \<or> (k, e) \<in> set (cache s)"
      using set_update_subset[of key "fresh_entry est cfg d now" c'] sub by blast
    then show "timestamp e \<le> lastAccess e \<and> lastAccess e \<le> now"
    proof
      assume "(k, e) = (key, fresh_entry est cfg d now)"
      then show ?thesis by auto
    next
      assume "(k, e) \<in> set (cache s)"
      then have "timestamp e \<le> lastAccess e \<and> lastAccess e \<le> clock"
        using inv unfolding recent_def by blast
      then show ?thesis using le by linarith
    qed
  qed
  then have "recent now (s\<lparr>cache := AList.update key (fresh_entry est cfg d now) c'\<rparr>)"
    by (simp add: recent_def)
  then show ?thesis using res by simp
qed

lemma get_recent:
  assumes inv: "recent clock s"
      and le: "clock \<le> now"
  shows "recent now (snd (get s key ty start now fin))"
proof (cases "map_of (cache s) key")
  case None
  then show ?thesis using recent_mono[OF inv le] by (simp add: get_absent recent_def)
next
  case (Some e)
  have e: "timestamp e \<le> lastAccess e \<and> lastAccess e \<le> clock"
    using inv map_of_SomeD[OF Some] unfolding recent_def by blast
  show ?thesis
  proof (cases "now - timestamp e > ttl e")
    case True
    have "\<forall>(k, e) \<in> set (AList.delete key (cache s)).
            timestamp e \<le> lastAccess e \<and> lastAccess e \<le> now"
      using recent_mono[OF inv le] set_delete_subset[of key "cache s"]
      unfolding recent_def by blast
    then show ?thesis by (simp add: get_expired[OF Some True] recent_def)
  next
    case False
    then have fresh: "now - timestamp e \<le> ttl e" by simp
    let ?e' = "e\<lparr>accessCount := accessCount e + 1, lastAccess := now\<rparr>"
    have "\<forall>(k, e0) \<in> set (AList.update key ?e' (cache s)).
            timestamp e0 \<le> lastAccess e0 \<and> lastAccess e0 \<le> now"
    proof (clarify)
      fix k e0
      assume "(k, e0) \<in> set (AList.update key ?e' (cache s))"
      then have "(k, e0) = (key, ?e') \<or> (k, e0) \<in> set (cache s)"
        using set_update_subset[of key ?e' "cache s"] by blast
      then show "timestamp e0 \<le> lastAccess e0 \<and> lastAccess e0 \<le> now"
      proof
        assume "(k, e0) = (key, ?e')"
        then have "timestamp e0 = timestamp e" and "lastAccess e0 = now" by auto
        then show ?thesis using e le by linarith
      next
        assume "(k, e0) \<in> set (cache s)"
        then have "timestamp e0 \<le> lastAccess e0 \<and> lastAccess e0 \<le> clock"
          using inv unfolding recent_def by blast
        then show ?thesis using le by linarith
      qed
    qed
    then show ?thesis by (simp add: get_hit[OF Some fresh] recent_def)
  qed
qed

lemma run_recent:
  assumes "positive_limits s"
      and "recent clock s"
      and "sorted (clock # map call_now calls)"
  shows "\<exists>s'. run est s calls = Inr s'
           \<and> recent (last (clock # map call_now calls)) s'
           \<and> positive_limits s'"
  using assms
proof (induction calls arbitrary: s clock)
  case Nil
  then show ?case by simp
next
  case (Cons c calls)
  have le: "clock \<le> call_now c" using Cons.prems(3) by simp
  have "\<exists>s1. do_call est s c = Inr s1 \<and> recent (call_now c) s1 \<and> configs s1 = configs s"
  proof (cases c)
    case (Set key d ty now)
    then show ?thesis using set_entry_recent[OF Cons.prems(1,2), of now est key d ty] le by simp
  next
    case (Get key ty start now fin)
    then show ?thesis using get_recent[OF Cons.prems(2), of now key ty start fin] le
      by (simp add: get_configs)
  qed
  then obtain s1 where s1: "do_call est s c = Inr s1" and r1: "recent (call_now c) s1"
    and c1: "configs s1 = configs s" by blast
  have p1: "positive_limits s1" using Cons.prems(1) c1 by (simp add: positive_limits_def)
  have so: "sorted (call_now c # map call_now calls)" using Cons.prems(3) by simp
  obtain s' where "run est s1 calls = Inr s'"
    and "recent (last (call_now c # map call_now calls)) s'" and "positive_limits s'"
    using Cons.IH[OF p1 r1 so] by blast
  then show ?case using s1 by simp
qed

lemma paris_read:
  "run json_size new_WeatherCache
     [Set paris_key ''{}'' CURRENT_WEATHER 1000, Get paris_key CURRENT_WEATHER 2000 2000 2001]
   = Inr (new_WeatherCache
            \<lparr>cache := [(paris_key, paris_entry\<lparr>accessCount := 1, lastAccess := 2000\<rparr>)],
             stats := \<lparr>hits = 1, misses = 0, totalAccessTime = 1, stats_accessCount = 1\<rparr>\<rparr>)"
  by (simp add: set_entry_def ensureCapacity_def typeEntries_def startsWith_def configs_new
        get_def new_WeatherCache_def[where 'a = string, THEN arg_cong[where f = cache]]
        new_WeatherCache_def[where 'a = string, THEN arg_cong[where f = stats]]
        city_defs json_size_def type_defs)

subsection \<open>The eviction\<close>

lemma set_entry_full:
  assumes cfg: "map_of (configs s) t = Some cfg"
      and full: "maxSize cfg \<le> int (length (typeEntries t (cache s)))"
      and pos: "1 \<le> maxSize cfg"
  shows "\<exists>pre v post. typeEntries t (cache s) = pre @ v # post
           \<and> (\<forall>p \<in> set pre. lastAccess (snd v) < lastAccess (snd p))
           \<and> (\<forall>p \<in> set post. lastAccess (snd v) \<le> lastAccess (snd p))
           \<and> set_entry est s key d t now =
               Inr (s\<lparr>cache := AList.update key (fresh_entry est cfg d now)
                                  (AList.delete (fst v) (cache s))\<rparr>)"
  using set_entry_evicts[OF cfg full full_nonempty[OF pos full]] .

lemma update_absent: "k \<notin> fst ` set c \<Longrightarrow> AList.update k v c = c @ [(k, v)]"
  by (induction c) auto

lemma typeEntries_startsWith:
  "(k, e) \<in> set (typeEntries t c) \<Longrightarrow> startsWith k (t @ '':'')"
  by (auto simp: typeEntries_def)

subsection \<open>The full store\<close>

lemma hourly_key_startsWith: "startsWith (hourly_key i) (HOURLY_FORECAST @ '':'')"
  by (simp add: hourly_key_def startsWith_def)

lemma typeEntries_full_hourly:
  "typeEntries HOURLY_FORECAST (cache full_hourly) = cache full_hourly"
  by (simp add: typeEntries_def full_hourly_def hourly_key_startsWith)

lemma length_full_hourly: "length (cache full_hourly) = 300"
  by (simp add: full_hourly_def)

lemma configs_full_hourly:
  "map_of (configs full_hourly) HOURLY_FORECAST
     = Some \<lparr>cfg_ttl = 1800000, maxSize = 300, cleanupInterval = 600000\<rparr>"
proof -
  have "configs full_hourly = configs (new_WeatherCache :: string WeatherCache)"
    by (simp add: full_hourly_def)
  then show ?thesis by (simp add: configs_new type_defs)
qed

subsection \<open>A set on the full store\<close>

lemma foldl_lru_pick_first:
  "\<forall>p \<in> set xs. lastAccess (snd x) \<le> lastAccess (snd p) \<Longrightarrow> foldl lru_pick x xs = x"
  by (induction xs) auto

lemma key_in_delete:
  "k \<in> fst ` set c \<Longrightarrow> k \<noteq> k' \<Longrightarrow> k \<in> fst ` set (AList.delete k' c)"
  by (induction c) auto

lemma length_update_present:
  "k \<in> fst ` set c \<Longrightarrow> length (AList.update k v c) = length c"
  by (induction c) auto

lemma hourly_keys:
  "hourly_key 0 = ''hourly_forecast:0,0''"
  "hourly_key 299 = ''hourly_forecast:0.0299,0''"
  by (simp_all add: hourly_key_def HOURLY_FORECAST_def print_simps)

lemma full_hourly_Cons:
  "cache full_hourly
     = (hourly_key 0, hourly_entry 0) # map (\<lambda>i. (hourly_key i, hourly_entry i)) [1..<300]"
proof -
  have "[0..<300] = 0 # [1..<300]" by (simp add: upt_conv_Cons)
  then show ?thesis by (simp add: full_hourly_def)
qed

lemma hourly_key_present:
  "i < 300 \<Longrightarrow> hourly_key i \<in> fst ` set (cache full_hourly)"
  by (simp add: full_hourly_def image_image)

lemma ensureCapacity_full_hourly:
  "ensureCapacity HOURLY_FORECAST \<lparr>cfg_ttl = 1800000, maxSize = 300, cleanupInterval = 600000\<rparr>
     full_hourly
   = Inr (full_hourly\<lparr>cache := AList.delete (hourly_key 0) (cache full_hourly)\<rparr>)"
proof -
  have first: "foldl lru_pick (hourly_key 0, hourly_entry 0)
                 (map (\<lambda>i. (hourly_key i, hourly_entry i)) [1..<300])
               = (hourly_key 0, hourly_entry 0)"
    by (rule foldl_lru_pick_first) (simp add: hourly_entry_def)
  have "reduce lru_pick (typeEntries HOURLY_FORECAST (cache full_hourly))
          = Inr (hourly_key 0, hourly_entry 0)"
    by (subst typeEntries_full_hourly) (simp only: full_hourly_Cons reduce.simps first)
  then show ?thesis
    by (simp add: ensureCapacity_def typeEntries_full_hourly length_full_hourly)
qed

subsection \<open>What invalidate removes\<close>

lemma str_includes_sublist: "str_includes s p = sublist p s"
  by (induction s) (auto simp: sublist_Cons_right)

lemma invalidate_fold:
  "fold (\<lambda>key (count, c). if P key then (count + 1, AList.delete key c) else (count, c)) ks (n, c)
     = (n + int (length (filter P ks)), filter (\<lambda>(k, e). \<not> (k \<in> set ks \<and> P k)) c)"
proof (induction ks arbitrary: n c)
  case Nil
  then show ?case by simp
next
  case (Cons a ks)
  show ?case
  proof (cases "P a")
    case True
    have "filter (\<lambda>(k, e). \<not> (k \<in> set ks \<and> P k)) (AList.delete a c)
            = filter (\<lambda>(k, e). \<not> (k \<in> set (a # ks) \<and> P k)) c"
      using True by (induction c) auto
    then show ?thesis using True by (simp add: Cons.IH)
  next
    case False
    have "filter (\<lambda>(k, e). \<not> (k \<in> set ks \<and> P k)) c
            = filter (\<lambda>(k, e). \<not> (k \<in> set (a # ks) \<and> P k)) c"
      using False by (induction c) auto
    then show ?thesis using False by (simp add: Cons.IH)
  qed
qed

lemma invalidate_pattern:
  assumes "p \<noteq> []"
  shows "invalidate s (Some p)
           = (int (length (filter (\<lambda>k. str_includes k p) (map fst (cache s)))),
              s\<lparr>cache := filter (\<lambda>(k, e). \<not> str_includes k p) (cache s)\<rparr>)"
proof -
  have "filter (\<lambda>(k, e). \<not> (k \<in> set (map fst (cache s)) \<and> str_includes k p)) (cache s)
          = filter (\<lambda>(k, e). \<not> str_includes k p) (cache s)"
    by (rule filter_cong) (auto simp: image_iff)
  then show ?thesis
    using assms
    by (simp add: invalidate_def invalidate_fold[where P = "\<lambda>k. str_includes k p"])
qed

subsection \<open>The keys of the full store are distinct\<close>

lemma digit_inj: "a < 10 \<Longrightarrow> b < 10 \<Longrightarrow> digit a = digit b \<Longrightarrow> a = b"
proof -
  assume a: "a < 10" and b: "b < 10" and eq: "digit a = digit b"
  have d: "distinct ''0123456789''" by simp
  have "a < length ''0123456789''" and "b < length ''0123456789''" using a b by simp_all
  then show "a = b" using eq d unfolding digit_def by (simp only: nth_eq_iff_index_eq)
qed

lemma decimal_step: "10 \<le> n \<Longrightarrow> decimal n = decimal (n div 10) @ [digit (n mod 10)]"
  by (subst decimal.simps) simp

lemma decimal_small: "n < 10 \<Longrightarrow> decimal n = [digit n]"
  by (subst decimal.simps) simp

lemma decimal_shift:
  "1 \<le> k \<Longrightarrow> decimal (10 * k + x) = decimal (k + x div 10) @ [digit (x mod 10)]"
  using decimal_step[of "10 * k + x"] by simp

lemma digits4:
  assumes "m < 10000"
  shows "tl (decimal (10000 + m))
           = [digit (m div 10 div 10 div 10 mod 10), digit (m div 10 div 10 mod 10),
              digit (m div 10 mod 10), digit (m mod 10)]"
proof -
  have z: "m div 10 div 10 div 10 div 10 = 0"
    using assms by (simp add: div_mult2_eq[symmetric])
  have s1: "decimal (10000 + m) = decimal (1000 + m div 10) @ [digit (m mod 10)]"
    using decimal_shift[of 1000 m] by simp
  have s2: "decimal (1000 + m div 10) = decimal (100 + m div 10 div 10) @ [digit (m div 10 mod 10)]"
    using decimal_shift[of 100 "m div 10"] by simp
  have s3: "decimal (100 + m div 10 div 10)
              = decimal (10 + m div 10 div 10 div 10) @ [digit (m div 10 div 10 mod 10)]"
    using decimal_shift[of 10 "m div 10 div 10"] by simp
  have s4: "decimal (10 + m div 10 div 10 div 10)
              = decimal (1 + m div 10 div 10 div 10 div 10) @ [digit (m div 10 div 10 div 10 mod 10)]"
    using decimal_shift[of 1 "m div 10 div 10 div 10"] by simp
  have s5: "decimal (1 + m div 10 div 10 div 10 div 10) = [digit 1]"
    by (simp add: z decimal_small)
  show ?thesis by (simp only: s1 s2 s3 s4 s5) simp
qed

lemma takeWhile_replicate:
  "takeWhile (\<lambda>c. c = a) l = replicate (length (takeWhile (\<lambda>c. c = a) l)) a"
  by (induction l) auto

lemma strip_inj:
  assumes len: "length xs = length ys"
      and eq: "rev (dropWhile (\<lambda>c. c = a) (rev xs)) = rev (dropWhile (\<lambda>c. c = a) (rev ys))"
  shows "xs = ys"
proof -
  let ?z = "\<lambda>c. c = a"
  have dw: "dropWhile ?z (rev xs) = dropWhile ?z (rev ys)" using eq by simp
  have lx: "length (rev xs) = length (takeWhile ?z (rev xs)) + length (dropWhile ?z (rev xs))"
    by (metis length_append takeWhile_dropWhile_id)
  have ly: "length (rev ys) = length (takeWhile ?z (rev ys)) + length (dropWhile ?z (rev ys))"
    by (metis length_append takeWhile_dropWhile_id)
  have "length (takeWhile ?z (rev xs)) = length (takeWhile ?z (rev ys))"
    using lx ly len dw by simp
  then have tw: "takeWhile ?z (rev xs) = takeWhile ?z (rev ys)"
    using takeWhile_replicate[of a "rev xs"] takeWhile_replicate[of a "rev ys"] by simp
  have "rev xs = takeWhile ?z (rev xs) @ dropWhile ?z (rev xs)" by simp
  also have "\<dots> = takeWhile ?z (rev ys) @ dropWhile ?z (rev ys)" by (simp only: tw dw)
  also have "\<dots> = rev ys" by simp
  finally show ?thesis by simp
qed

lemma div10_eq:
  "(a::nat) div 10 = b div 10 \<Longrightarrow> a mod 10 = b mod 10 \<Longrightarrow> a = b"
  by (metis div_mult_mod_eq)

lemma fraction4_inj:
  assumes i: "i < 10000" and j: "j < 10000" and eq: "fraction4 i = fraction4 j"
  shows "i = j"
proof -
  have "tl (decimal (10000 + i)) = tl (decimal (10000 + j))"
  proof (rule strip_inj)
    show "length (tl (decimal (10000 + i))) = length (tl (decimal (10000 + j)))"
      by (simp add: digits4[OF i] digits4[OF j])
    show "rev (dropWhile (\<lambda>c. c = CHR ''0'') (rev (tl (decimal (10000 + i)))))
            = rev (dropWhile (\<lambda>c. c = CHR ''0'') (rev (tl (decimal (10000 + j)))))"
      using eq i j by (simp add: fraction4_def)
  qed
  then have "digit (i div 10 div 10 div 10 mod 10) = digit (j div 10 div 10 div 10 mod 10)"
    and "digit (i div 10 div 10 mod 10) = digit (j div 10 div 10 mod 10)"
    and "digit (i div 10 mod 10) = digit (j div 10 mod 10)"
    and "digit (i mod 10) = digit (j mod 10)"
    by (simp_all add: digits4[OF i] digits4[OF j])
  then have d3: "i div 10 div 10 div 10 mod 10 = j div 10 div 10 div 10 mod 10"
    and d2: "i div 10 div 10 mod 10 = j div 10 div 10 mod 10"
    and d1: "i div 10 mod 10 = j div 10 mod 10"
    and d0: "i mod 10 = j mod 10"
    by (simp_all add: digit_inj)
  have z: "i div 10 div 10 div 10 div 10 = j div 10 div 10 div 10 div 10"
    using i j by (simp add: div_mult2_eq[symmetric])
  have "i div 10 div 10 div 10 = j div 10 div 10 div 10" using div10_eq[OF z d3] .
  then have "i div 10 div 10 = j div 10 div 10" using d2 by (rule div10_eq)
  then have "i div 10 = j div 10" using d1 by (rule div10_eq)
  then show "i = j" using d0 by (rule div10_eq)
qed

lemma Math_round_nat: "Math_round (real i) = int i"
proof -
  have "\<lfloor>real i + 1 / 2\<rfloor> = int i" by linarith
  then show ?thesis by (simp add: Math_round_def)
qed

lemma print4_small:
  "i < 10000 \<Longrightarrow>
   print4 (int i) = ''0'' @ (if fraction4 i = [] then [] else ''.'' @ fraction4 i)"
  by (simp add: print4_def decimal_small digit_def)

lemma hourly_key_inj:
  assumes i: "i < 10000" and j: "j < 10000" and eq: "hourly_key i = hourly_key j"
  shows "i = j"
proof -
  have "print4 (int i) = print4 (int j)"
    using eq by (simp add: hourly_key_def numberToString4_def Math_round_nat)
  then have "(if fraction4 i = [] then [] else ''.'' @ fraction4 i)
           = (if fraction4 j = [] then [] else ''.'' @ fraction4 j)"
    by (simp add: print4_small[OF i] print4_small[OF j])
  then have "fraction4 i = fraction4 j" by (auto split: if_splits)
  then show ?thesis using i j by (rule fraction4_inj[rotated 2])
qed

lemma distinct_full_hourly: "distinct (map fst (cache full_hourly))"
proof -
  have "inj_on hourly_key (set [0..<300])"
    by (rule inj_onI) (auto intro: hourly_key_inj)
  then have "distinct (map hourly_key [0..<300])" by (simp add: distinct_map)
  moreover have "map fst (cache full_hourly) = map hourly_key [0..<300]"
    by (simp add: full_hourly_def comp_def)
  ultimately show ?thesis by simp
qed

lemma length_delete_distinct:
  "distinct (map fst c) \<Longrightarrow> k \<in> fst ` set c \<Longrightarrow> Suc (length (AList.delete k c)) = length c"
proof (induction c)
  case Nil
  then show ?case by simp
next
  case (Cons a c)
  show ?case
  proof (cases "fst a = k")
    case True
    then have "k \<notin> fst ` set c" using Cons.prems(1) by auto
    then show ?thesis using True by simp
  next
    case False
    then show ?thesis using Cons by auto
  qed
qed

subsection \<open>The keys of the store stay distinct\<close>

lemma set_entry_distinct:
  assumes "distinct (map fst (cache s))"
      and "set_entry est s key d ty now = Inr s'"
  shows "distinct (map fst (cache s'))"
proof (cases "map_of (configs s) ty")
  case None
  then show ?thesis using assms by (simp add: set_entry_def)
next
  case (Some cfg)
  show ?thesis
  proof (cases "int (length (typeEntries ty (cache s))) < maxSize cfg")
    case True
    then show ?thesis
      using assms set_entry_room[OF Some True, of est key d now] by (auto simp: distinct_update)
  next
    case False
    then have full: "maxSize cfg \<le> int (length (typeEntries ty (cache s)))" by simp
    show ?thesis
    proof (cases "typeEntries ty (cache s) = []")
      case True
      then have "ensureCapacity ty cfg s = Inl TypeError"
        using full by (simp add: ensureCapacity_def)
      then show ?thesis using assms(2) Some by (simp add: set_entry_def)
    next
      case False
      obtain pre v post where "typeEntries ty (cache s) = pre @ v # post"
        and "set_entry est s key d ty now =
               Inr (s\<lparr>cache := AList.update key (fresh_entry est cfg d now)
                                  (AList.delete (fst v) (cache s))\<rparr>)"
        using set_entry_evicts[OF Some full False, of est key d now] by blast
      then show ?thesis using assms by (auto simp: distinct_update distinct_delete)
    qed
  qed
qed

lemma get_distinct:
  "distinct (map fst (cache s)) \<Longrightarrow> distinct (map fst (cache (snd (get s key ty start now fin))))"
  by (cases "map_of (cache s) key")
     (auto simp: get_def distinct_update distinct_delete)

lemma cleanup_distinct:
  "distinct (map fst (cache s)) \<Longrightarrow> distinct (map fst (cache (cleanup s now)))"
  by (simp add: cleanup_filter distinct_map_filter)

lemma invalidate_distinct:
  "distinct (map fst (cache s)) \<Longrightarrow> distinct (map fst (cache (snd (invalidate s pattern))))"
proof (cases "pattern = None \<or> pattern = Some []")
  case True
  then show ?thesis by (auto simp: invalidate_def)
next
  case False
  then obtain p where "pattern = Some p" and "p \<noteq> []" by auto
  moreover assume "distinct (map fst (cache s))"
  ultimately show ?thesis by (simp add: invalidate_pattern distinct_map_filter)
qed

lemma run_distinct:
  "distinct (map fst (cache s)) \<Longrightarrow> run est s calls = Inr s' \<Longrightarrow> distinct (map fst (cache s'))"
proof (induction calls arbitrary: s)
  case Nil
  then show ?case by simp
next
  case (Cons c calls)
  from Cons.prems(2) obtain s1 where s1: "do_call est s c = Inr s1"
    and rest: "run est s1 calls = Inr s'"
    by (auto split: sum.splits)
  have "distinct (map fst (cache s1))"
  proof (cases c)
    case (Set key d ty now)
    then show ?thesis using s1 Cons.prems(1) set_entry_distinct by auto
  next
    case (Get key ty start now fin)
    then show ?thesis using s1 Cons.prems(1) get_distinct by auto
  qed
  then show ?case using rest by (rule Cons.IH)
qed

text \<open>Overwriting a key of a type that is below its limit changes that entry only.\<close>

lemma set_overwrites_with_room:
  assumes cfg: "map_of (configs s) t = Some cfg"
      and room: "int (length (typeEntries t (cache s))) < maxSize cfg"
      and present: "map_of (cache s) key = Some old"
  shows "\<exists>s'. set_entry est s key d t now = Inr s'
           \<and> map_of (cache s') key = Some (fresh_entry est cfg d now)
           \<and> map fst (cache s') = map fst (cache s)
           \<and> length (cache s') = length (cache s)
           \<and> (\<forall>k. k \<noteq> key \<longrightarrow> map_of (cache s') k = map_of (cache s) k)"
proof -
  have "key \<in> fst ` set (cache s)" using present by (metis map_of_eq_None_iff option.distinct(1))
  then have "map fst (AList.update key (fresh_entry est cfg d now) (cache s)) = map fst (cache s)"
    by (simp add: update_keys)
  moreover from this
  have "length (AList.update key (fresh_entry est cfg d now) (cache s)) = length (cache s)"
    by (metis length_map)
  ultimately show ?thesis
    using set_entry_room[OF cfg room, of est key d now] by (simp add: update_conv')
qed

text \<open>
  An invalidation by type removes every key of the type, and an invalidation by a pattern
  keeps every key in which the pattern does not occur.
\<close>

lemma invalidateByType_removes_type:
  "startsWith k (t @ '':'') \<Longrightarrow> map_of (cache (snd (invalidateByType s t))) k = None"
proof -
  assume "startsWith k (t @ '':'')"
  then have inc: "str_includes k (t @ '':'')"
    by (simp add: str_includes_sublist startsWith_def prefix_imp_sublist)
  have "k \<notin> fst ` set (filter (\<lambda>(k, e). \<not> str_includes k (t @ '':'')) (cache s))"
    using inc by auto
  then show ?thesis
    by (simp add: invalidateByType_def invalidate_pattern map_of_eq_None_iff)
qed

lemma invalidate_keeps:
  assumes "p \<noteq> []" and "\<not> str_includes k p"
  shows "map_of (cache (snd (invalidate s (Some p)))) k = map_of (cache s) k"
proof -
  have "map_of (filter (\<lambda>(k, e). \<not> str_includes k p) c) k = map_of c k" for c :: "(string \<times> 'a CacheEntry) list"
    using assms(2) by (induction c) auto
  then show ?thesis using assms(1) by (simp add: invalidate_pattern)
qed

subsection \<open>The type of a key\<close>

text \<open>
  No type tag contains a colon, so the type of a key is its text before the first colon,
  and a key of one configured type is not a key of another.
\<close>

lemma takeWhile_before:
  "c \<notin> set a \<Longrightarrow> takeWhile (\<lambda>x. x \<noteq> c) (a @ c # r) = a"
  by (induction a) auto

lemma type_of_key:
  assumes "CHR '':'' \<notin> set t" and "startsWith k (t @ '':'')"
  shows "takeWhile (\<lambda>x. x \<noteq> CHR '':'') k = t"
proof -
  obtain r where "k = (t @ '':'') @ r" using assms(2) unfolding startsWith_def prefix_def by blast
  then have "k = t @ CHR '':'' # r" by simp
  then show ?thesis using takeWhile_before[OF assms(1)] by simp
qed

lemma other_type_prefix:
  assumes "CHR '':'' \<notin> set a" and "CHR '':'' \<notin> set b" and "a \<noteq> b"
      and "startsWith k (b @ '':'')"
  shows "\<not> startsWith k (a @ '':'')"
  using assms type_of_key by blast

lemma configured_types_differ:
  assumes "map_of (configs new_WeatherCache) a = Some ca"
      and "map_of (configs new_WeatherCache) b = Some cb"
      and "a \<noteq> b"
      and "startsWith k (b @ '':'')"
  shows "\<not> startsWith k (a @ '':'')"
proof -
  have "CHR '':'' \<notin> set a" using assms(1) by (auto simp: configs_new type_defs split: if_splits)
  moreover have "CHR '':'' \<notin> set b" using assms(2) by (auto simp: configs_new type_defs split: if_splits)
  ultimately show ?thesis using other_type_prefix assms(3,4) by blast
qed

text \<open>The order in which the parameters were written into the object does not matter.\<close>

lemma generateKey_parameter_order:
  assumes "distinct (map fst ps)" and "distinct (map fst qs)" and "set ps = set qs"
  shows "generateKey numberTimes numberDivide numberToString toString md5hex
           (p\<lparr>parameters := Some ps\<rparr>)
       = generateKey numberTimes numberDivide numberToString toString md5hex
           (p\<lparr>parameters := Some qs\<rparr>)"
proof -
  have m: "map_of ps = map_of qs" using assms by (simp add: map_of_inject_set)
  have "set (map fst ps) = set (map fst qs)" using assms(3) by simp
  then have "sort (map fst ps) = sort (map fst qs)"
    using assms(1,2) by (intro sorted_distinct_set_unique) simp_all
  then show ?thesis by (simp add: generateKey_def m)
qed

subsection \<open>The concrete stores are reached by calls of set\<close>

lemma run_append:
  "run est s (xs @ ys) = (case run est s xs of Inl e \<Rightarrow> Inl e | Inr s1 \<Rightarrow> run est s1 ys)"
  by (induction xs arbitrary: s) (auto split: sum.splits)

lemma hourly_store_reached:
  "n \<le> 300 \<Longrightarrow>
   run json_size new_WeatherCache
     (map (\<lambda>i. Set (hourly_key i) ''{}'' HOURLY_FORECAST (int i)) [0..<n])
   = Inr (new_WeatherCache\<lparr>cache := map (\<lambda>i. (hourly_key i, hourly_entry i)) [0..<n]\<rparr>)"
proof (induction n)
  case 0
  then show ?case by (simp add: new_WeatherCache_def)
next
  case (Suc n)
  let ?cfg = "\<lparr>cfg_ttl = 1800000, maxSize = 300, cleanupInterval = 600000\<rparr>"
  let ?s = "new_WeatherCache\<lparr>cache := map (\<lambda>i. (hourly_key i, hourly_entry i)) [0..<n]\<rparr>
              :: string WeatherCache"
  have n: "n < 300" using Suc.prems by simp
  have cfg: "map_of (configs ?s) HOURLY_FORECAST = Some ?cfg"
    by (simp add: configs_new type_defs)
  have "length (typeEntries HOURLY_FORECAST (cache ?s)) \<le> length (cache ?s)"
    unfolding typeEntries_def by (rule length_filter_le)
  moreover have "length (cache ?s) = n" by simp
  ultimately have room: "int (length (typeEntries HOURLY_FORECAST (cache ?s))) < maxSize ?cfg"
    using n by simp
  have "hourly_key n \<notin> hourly_key ` {0..<n}"
  proof
    assume "hourly_key n \<in> hourly_key ` {0..<n}"
    then obtain i where i: "i < n" and eq: "hourly_key n = hourly_key i" by auto
    have "n = i" using eq by (rule hourly_key_inj[rotated 2]) (use n i in simp_all)
    then show False using i by simp
  qed
  then have fresh: "hourly_key n \<notin> fst ` set (cache ?s)" by (simp add: image_image)
  have E: "fresh_entry json_size ?cfg ''{}'' (int n) = hourly_entry n"
    by (simp add: json_size_def hourly_entry_def)
  have "set_entry json_size ?s (hourly_key n) ''{}'' HOURLY_FORECAST (int n)
          = Inr (?s\<lparr>cache := AList.update (hourly_key n) (hourly_entry n) (cache ?s)\<rparr>)"
    using set_entry_room[OF cfg room, of json_size "hourly_key n" "''{}''" "int n"]
    by (simp only: E)
  also have "AList.update (hourly_key n) (hourly_entry n) (cache ?s)
               = cache ?s @ [(hourly_key n, hourly_entry n)]"
    using fresh by (rule update_absent)
  finally have step: "set_entry json_size ?s (hourly_key n) ''{}'' HOURLY_FORECAST (int n)
          = Inr (new_WeatherCache\<lparr>cache := map (\<lambda>i. (hourly_key i, hourly_entry i)) [0..<Suc n]\<rparr>)"
    by simp
  have "run json_size new_WeatherCache
          (map (\<lambda>i. Set (hourly_key i) ''{}'' HOURLY_FORECAST (int i)) [0..<n]) = Inr ?s"
    using Suc.IH n by simp
  then show ?case by (simp add: run_append step)
qed

lemma full_hourly_reached:
  "run json_size new_WeatherCache
     (map (\<lambda>i. Set (hourly_key i) ''{}'' HOURLY_FORECAST (int i)) [0..<300])
   = Inr full_hourly"
  using hourly_store_reached[of 300] by (simp add: full_hourly_def)

lemma paris_forecasts_reached:
  "run json_size new_WeatherCache
     [Set ''forecast:48.8566,2.3522'' ''[]'' FORECAST 1000,
      Set ''hourly_forecast:48.8566,2.3522'' ''[]'' HOURLY_FORECAST 1000]
   = Inr paris_forecasts"
  by (simp add: set_entry_def ensureCapacity_def typeEntries_def startsWith_def configs_new
        new_WeatherCache_def[where 'a = string, THEN arg_cong[where f = cache]]
        paris_forecasts_def json_size_def type_defs)

subsection \<open>Doubles and the rounding of a coordinate\<close>

lemma round_half_even_near: "\<bar>real_of_int (round_half_even r) - r\<bar> \<le> 1 / 2"
  unfolding round_half_even_def by (auto; linarith)

lemma binade_le: "x \<noteq> 0 \<Longrightarrow> 2 powr real_of_int (binade x) \<le> \<bar>x\<bar>"
proof -
  assume "x \<noteq> 0"
  then have pos: "0 < \<bar>x\<bar>" by simp
  have "real_of_int (binade x) \<le> log 2 \<bar>x\<bar>" unfolding binade_def by simp
  then have "2 powr real_of_int (binade x) \<le> 2 powr log 2 \<bar>x\<bar>" by (simp add: powr_mono)
  then show ?thesis using pos by simp
qed

text \<open>Rounding to a double changes a number by at most its \<open>2\<^sup>-\<^sup>5\<^sup>3\<close>-th part.\<close>

lemma to_double_error: "\<bar>to_double x - x\<bar> \<le> \<bar>x\<bar> / 2 ^ 53"
proof (cases "x = 0")
  case True
  then show ?thesis by (simp add: to_double_def)
next
  case False
  define u where "u = 2 powr real_of_int (binade x - 52)"
  define k where "k = real_of_int (round_half_even (x / u))"
  have u: "0 < u" by (simp add: u_def)
  have td: "to_double x = k * u" using False by (simp add: to_double_def k_def u_def)
  have near: "\<bar>k - x / u\<bar> \<le> 1 / 2" unfolding k_def by (rule round_half_even_near)
  have "k * u - x = (k - x / u) * u" using u by (simp add: algebra_simps)
  then have "\<bar>k * u - x\<bar> = \<bar>k - x / u\<bar> * u" using u by (simp add: abs_mult)
  also have "\<dots> \<le> 1 / 2 * u" using near u by (rule mult_right_mono[OF _ less_imp_le])
  finally have e1: "\<bar>to_double x - x\<bar> \<le> 1 / 2 * u" by (simp only: td)
  have "u = 2 powr real_of_int (binade x) * 2 powr (- 52)"
    unfolding u_def by (simp add: powr_add[symmetric])
  also have "2 powr (- 52 :: real) = 1 / 2 ^ 52"
    by (simp add: powr_minus_divide)
  finally have "1 / 2 * u = 2 powr real_of_int (binade x) / 2 ^ 53" by simp
  also have "\<dots> \<le> \<bar>x\<bar> / 2 ^ 53"
    using binade_le[OF False] by (simp add: divide_right_mono)
  finally show ?thesis using e1 by linarith
qed

lemma Math_round_near: "\<bar>y - real_of_int n\<bar> < 1 / 2 \<Longrightarrow> Math_round y = n"
  unfolding Math_round_def by linarith

lemma near_grid_round: "near_grid numberTimes x n \<Longrightarrow> Math_round (numberTimes x 10000) = n"
proof -
  assume "near_grid numberTimes x n"
  then have "\<bar>numberTimes x 10000 - real_of_int n\<bar> < 1 / 2"
    unfolding near_grid_def by linarith
  then show ?thesis by (rule Math_round_near)
qed

lemma double_times_scaled:
  "\<bar>x\<bar> \<le> 2000 \<Longrightarrow> \<bar>double_times x 10000 - x * 10000\<bar> \<le> 1 / 100000"
proof -
  assume b: "\<bar>x\<bar> \<le> 2000"
  have "\<bar>double_times x 10000 - x * 10000\<bar> \<le> \<bar>x * 10000\<bar> / 2 ^ 53"
    unfolding double_times_def by (rule to_double_error)
  also have "\<bar>x * 10000\<bar> = \<bar>x\<bar> * 10000" by (simp add: abs_mult)
  also have "\<bar>x\<bar> * 10000 / 2 ^ 53 \<le> 2000 * 10000 / 2 ^ 53"
    using b by (simp add: divide_right_mono)
  also have "\<dots> \<le> 1 / 100000" by simp
  finally show ?thesis .
qed

lemma to_double_literal: "\<bar>c\<bar> \<le> 1000 \<Longrightarrow> \<bar>to_double c - c\<bar> \<le> 1 / 10000000000"
proof -
  assume b: "\<bar>c\<bar> \<le> 1000"
  have "\<bar>to_double c - c\<bar> \<le> \<bar>c\<bar> / 2 ^ 53" by (rule to_double_error)
  also have "\<dots> \<le> 1000 / 2 ^ 53" using b by (simp add: divide_right_mono)
  also have "\<dots> \<le> 1 / 10000000000" by simp
  finally show ?thesis .
qed

text \<open>
  With IEEE doubles, a coordinate up to 1000 in size whose decimal literal is within
  \<open>0.000048\<close> of \<open>n / 10000\<close> is near that value.
\<close>

lemma near_grid_double:
  assumes "\<bar>c\<bar> \<le> 1000" and "\<bar>c * 10000 - real_of_int n\<bar> \<le> 48 / 100"
  shows "near_grid double_times (to_double c) n"
proof -
  have e: "\<bar>to_double c - c\<bar> \<le> 1 / 10000000000" using assms(1) by (rule to_double_literal)
  then have "\<bar>to_double c\<bar> \<le> 2000" using assms(1) by linarith
  then have "\<bar>double_times (to_double c) 10000 - to_double c * 10000\<bar> \<le> 1 / 100000"
    by (rule double_times_scaled)
  moreover have "\<bar>to_double c * 10000 - real_of_int n\<bar> \<le> 49 / 100"
    using e assms(2) by linarith
  ultimately show ?thesis unfolding near_grid_def by linarith
qed

lemma double_divide_scaled:
  assumes "\<bar>n\<bar> \<le> 1000000000"
  shows "Math_round (double_divide (real_of_int n) 10000 * 10000) = n"
proof -
  have "\<bar>double_divide (real_of_int n) 10000 - real_of_int n / 10000\<bar>
          \<le> \<bar>real_of_int n / 10000\<bar> / 2 ^ 53"
    unfolding double_divide_def by (rule to_double_error)
  also have "\<dots> \<le> (1000000000 / 10000) / 2 ^ 53"
  proof -
    have "\<bar>real_of_int n\<bar> \<le> 1000000000" using assms by linarith
    then have "\<bar>real_of_int n / 10000\<bar> \<le> 1000000000 / 10000" by simp
    then show ?thesis by (simp add: divide_right_mono)
  qed
  also have "\<dots> \<le> 1 / 100000" by simp
  finally have "\<bar>double_divide (real_of_int n) 10000 * 10000 - real_of_int n\<bar> < 1 / 2"
    by linarith
  then show ?thesis by (rule Math_round_near)
qed

text \<open>What \<^verbatim>\<open>generateKey\<close> prints for a coordinate near \<open>n / 10000\<close>.\<close>

lemma double_coordinate_text:
  assumes "near_grid double_times x n" and "\<bar>n\<bar> \<le> 1000000000"
  shows "numberToString4
           (double_divide (real_of_int (Math_round (double_times x 10000))) 10000)
         = print4 n"
  by (simp add: near_grid_round[OF assms(1)] numberToString4_def double_divide_scaled[OF assms(2)])

lemma binade_eq: "2 ^ k \<le> \<bar>x\<bar> \<Longrightarrow> \<bar>x\<bar> < 2 ^ Suc k \<Longrightarrow> binade x = int k"
proof -
  assume lo: "2 ^ k \<le> \<bar>x\<bar>" and hi: "\<bar>x\<bar> < 2 ^ Suc k"
  have "(0::real) < 2 ^ k" by simp
  then have pos: "0 < \<bar>x\<bar>" using lo by linarith
  have "2 powr real k \<le> \<bar>x\<bar>" using lo by (simp add: powr_realpow)
  then have a: "real k \<le> log 2 \<bar>x\<bar>" using pos by (simp add: le_log_iff)
  have "\<bar>x\<bar> < 2 powr real (Suc k)" using hi by (simp only: powr_realpow[of 2, simplified])
  then have b: "log 2 \<bar>x\<bar> < real (Suc k)" using pos by (simp add: log_less_iff)
  show ?thesis unfolding binade_def using a b by linarith
qed

lemma to_double_eval:
  assumes "binade x = int k" and "k \<le> 52"
  shows "to_double x = real_of_int (round_half_even (x * 2 ^ (52 - k))) / 2 ^ (52 - k)"
proof (cases "x = 0")
  case True
  then show ?thesis by (simp add: to_double_def round_half_even_def)
next
  case False
  have "real_of_int (binade x - 52) = - real (52 - k)" using assms by simp
  then have "2 powr real_of_int (binade x - 52) = 1 / 2 ^ (52 - k)"
    by (simp add: powr_minus_divide powr_realpow)
  then show ?thesis using False by (simp add: to_double_def)
qed

text \<open>
  At a rounding boundary the doubles decide: the literal \<open>48.80085\<close> denotes a number
  whose product with 10000 is the double just below \<open>488008.5\<close>, and it rounds down.
\<close>

lemma boundary_lat_value: "boundary_lat = 6868109058605108 / 2 ^ 47"
proof -
  have b: "binade 48.80085 = int 5" by (rule binade_eq) simp_all
  have "to_double 48.80085
          = real_of_int (round_half_even (48.80085 * 2 ^ (52 - 5))) / 2 ^ (52 - 5)"
    by (rule to_double_eval[OF b]) simp
  also have "\<dots> = 6868109058605108 / 2 ^ 47" by (simp add: round_half_even_def)
  finally show ?thesis by (simp only: boundary_lat_def)
qed

lemma boundary_lat_product:
  "double_times boundary_lat 10000 = 8383922190680063 / 2 ^ 34"
proof -
  let ?X = "6868109058605108 / 2 ^ 47 * 10000 :: real"
  have b: "binade ?X = int 18" by (rule binade_eq) simp_all
  have "double_times boundary_lat 10000 = to_double ?X"
    by (simp only: double_times_def boundary_lat_value)
  also have "\<dots> = real_of_int (round_half_even (?X * 2 ^ (52 - 18))) / 2 ^ (52 - 18)"
    by (rule to_double_eval[OF b]) simp
  also have "\<dots> = 8383922190680063 / 2 ^ 34" by (simp add: round_half_even_def)
  finally show ?thesis .
qed

lemma boundary_lat_rounds_down:
  "Math_round (48.80085 * 10000) = 488009
   \<and> Math_round (double_times boundary_lat 10000) = 488008"
  by (simp only: boundary_lat_product) (simp add: Math_round_def)

text \<open>The coordinates of the concrete inputs and the keys they give.\<close>

lemma paris_lat_near: "near_grid double_times paris_lat 488566"
  unfolding paris_lat_def by (rule near_grid_double) simp_all

lemma paris_lon_near: "near_grid double_times paris_lon 23522"
  unfolding paris_lon_def by (rule near_grid_double) simp_all

lemma near_paris_lat_near: "near_grid double_times near_paris_lat 488566"
  unfolding near_paris_lat_def by (rule near_grid_double) simp_all

lemma near_paris_lon_near: "near_grid double_times near_paris_lon 23522"
  unfolding near_paris_lon_def by (rule near_grid_double) simp_all

lemma past_paris_lat_near: "near_grid double_times past_paris_lat 488567"
  unfolding past_paris_lat_def by (rule near_grid_double) simp_all

lemma other_lat_near: "near_grid double_times other_lat 88566"
  unfolding other_lat_def by (rule near_grid_double) simp_all

lemma past_boundary_lat_near: "near_grid double_times past_boundary_lat 488009"
  unfolding past_boundary_lat_def by (rule near_grid_double) simp_all

lemma print4_values:
  "print4 488566 = ''48.8566''"
  "print4 488567 = ''48.8567''"
  "print4 23522 = ''2.3522''"
  "print4 88566 = ''8.8566''"
  by (simp_all add: print4_def fraction4_def decimal.simps digit_def)

lemma coordinate_texts:
  "numberToString4 (double_divide (real_of_int (Math_round (double_times paris_lat 10000))) 10000)
     = ''48.8566''"
  "numberToString4 (double_divide (real_of_int (Math_round (double_times paris_lon 10000))) 10000)
     = ''2.3522''"
  "numberToString4 (double_divide (real_of_int (Math_round (double_times near_paris_lat 10000))) 10000)
     = ''48.8566''"
  "numberToString4 (double_divide (real_of_int (Math_round (double_times near_paris_lon 10000))) 10000)
     = ''2.3522''"
  "numberToString4 (double_divide (real_of_int (Math_round (double_times past_paris_lat 10000))) 10000)
     = ''48.8567''"
  "numberToString4 (double_divide (real_of_int (Math_round (double_times other_lat 10000))) 10000)
     = ''8.8566''"
  using double_coordinate_text[OF paris_lat_near] double_coordinate_text[OF paris_lon_near]
    double_coordinate_text[OF near_paris_lat_near] double_coordinate_text[OF near_paris_lon_near]
    double_coordinate_text[OF past_paris_lat_near] double_coordinate_text[OF other_lat_near]
  by (simp_all add: print4_values)

lemma key_paris:
  "generateKey double_times double_divide numberToString4 plain md5_known
     \<lparr>latitude = paris_lat, longitude = paris_lon, ctype = CURRENT_WEATHER,
      parameters = None\<rparr>
   = ''current_weather:48.8566,2.3522''"
  unfolding generateKey_def Let_def
  by (simp add: coordinate_texts CURRENT_WEATHER_def)

lemma key_past_paris:
  "generateKey double_times double_divide numberToString4 plain md5_known
     \<lparr>latitude = past_paris_lat, longitude = paris_lon, ctype = CURRENT_WEATHER,
      parameters = None\<rparr>
   = ''current_weather:48.8567,2.3522''"
  unfolding generateKey_def Let_def
  by (simp add: coordinate_texts CURRENT_WEATHER_def)

lemma key_near_paris:
  "generateKey double_times double_divide numberToString4 plain md5_known
     \<lparr>latitude = near_paris_lat, longitude = near_paris_lon, ctype = CURRENT_WEATHER,
      parameters = Some [(''unit'', ''celsius'')]\<rparr>
   = ''current_weather:48.8566,2.3522:d2fc24e0''"
  unfolding generateKey_def Let_def
  by (simp add: coordinate_texts plain_def md5_known_def CURRENT_WEATHER_def)

text \<open>The key depends on the coordinates only through the rounded products.\<close>

lemma generateKey_same_rounding:
  assumes "Math_round (numberTimes (latitude p) 10000) = Math_round (numberTimes (latitude q) 10000)"
      and "Math_round (numberTimes (longitude p) 10000) = Math_round (numberTimes (longitude q) 10000)"
      and "ctype p = ctype q"
      and "parameters p = parameters q"
  shows "generateKey numberTimes numberDivide numberToString toString md5hex p
       = generateKey numberTimes numberDivide numberToString toString md5hex q"
  using assms by (simp add: generateKey_def)

text \<open>
  The two latitudes \<open>48.80085\<close> and \<open>48.80091\<close>, whose exact products with 10000 both
  round to 488009, get different keys.
\<close>

lemma boundary_keys:
  "generateKey double_times double_divide numberToString4 plain md5_known
     \<lparr>latitude = boundary_lat, longitude = paris_lon, ctype = FORECAST, parameters = None\<rparr>
   = ''forecast:48.8008,2.3522''"
  "generateKey double_times double_divide numberToString4 plain md5_known
     \<lparr>latitude = past_boundary_lat, longitude = paris_lon, ctype = FORECAST, parameters = None\<rparr>
   = ''forecast:48.8009,2.3522''"
proof -
  have a: "Math_round (double_times boundary_lat 10000) = 488008"
    using boundary_lat_rounds_down by (elim conjE)
  have "Math_round (double_divide (real_of_int 488008) 10000 * 10000) = 488008"
    by (rule double_divide_scaled) simp
  then have b: "numberToString4 (double_divide (real_of_int 488008) 10000) = ''48.8008''"
    by (simp only: numberToString4_def)
       (simp add: print4_def fraction4_def decimal.simps digit_def)
  have c: "numberToString4
             (double_divide (real_of_int (Math_round (double_times past_boundary_lat 10000))) 10000)
           = ''48.8009''"
  proof -
    have "print4 488009 = ''48.8009''"
      by (simp add: print4_def fraction4_def decimal.simps digit_def)
    with double_coordinate_text[OF past_boundary_lat_near] show ?thesis by simp
  qed
  show "generateKey double_times double_divide numberToString4 plain md5_known
     \<lparr>latitude = boundary_lat, longitude = paris_lon, ctype = FORECAST, parameters = None\<rparr>
   = ''forecast:48.8008,2.3522''"
    unfolding generateKey_def Let_def
    by (simp only: CacheKeyParams.simps a b coordinate_texts) (simp add: FORECAST_def)
  show "generateKey double_times double_divide numberToString4 plain md5_known
     \<lparr>latitude = past_boundary_lat, longitude = paris_lon, ctype = FORECAST, parameters = None\<rparr>
   = ''forecast:48.8009,2.3522''"
    unfolding generateKey_def Let_def
    by (simp only: CacheKeyParams.simps c coordinate_texts) (simp add: FORECAST_def)
qed

section \<open>The claims\<close>

subsection \<open>C1: capacity bound\<close>

text \<open>
  C1. Start from the cache the constructor builds and make any sequence of calls in
  which every \<^verbatim>\<open>set\<close> is for the one configured type \<open>t\<close> (reads may be interleaved).
  No call raises, and afterwards the number of entries whose key starts with \<open>t:\<close> is
  at most the \<open>maxSize\<close> configured for \<open>t\<close>. Every prefix of a sequence is a sequence,
  so the bound holds after each call.
\<close>

theorem capacity_bound:
  assumes "map_of (configs (new_WeatherCache :: 'a WeatherCache)) t = Some cfg"
      and "\<forall>c \<in> set calls. call_type_is t c"
  shows "\<exists>s. run est (new_WeatherCache :: 'a WeatherCache) calls = Inr s
            \<and> int (length (typeEntries t (cache s))) \<le> maxSize cfg"
proof -
  have pos: "1 \<le> maxSize cfg" using assms(1) by (rule configs_new_positive)
  have "int (length (typeEntries t (cache (new_WeatherCache :: 'a WeatherCache)))) \<le> maxSize cfg"
    using pos by (simp add: new_WeatherCache_def typeEntries_def)
  then show ?thesis using run_bound[OF assms(1) pos _ assms(2)] by blast
qed

theorem capacity_bound_witness:
  "map_of (configs (new_WeatherCache :: string WeatherCache)) FORECAST
     = Some \<lparr>cfg_ttl = 3600000, maxSize = 500, cleanupInterval = 900000\<rparr>
   \<and> call_type_is FORECAST (Set ''forecast:48.8566,2.3522'' ''{}'' FORECAST 1000)
   \<and> call_type_is FORECAST (Get ''forecast:48.8566,2.3522'' FORECAST 2000 2000 2001 :: string call)
   \<and> call_type_is FORECAST (Set ''forecast:51.5074,-0.1278'' ''{}'' FORECAST 3000)
   \<and> (\<exists>s. run json_size (new_WeatherCache :: string WeatherCache)
              [Set ''forecast:48.8566,2.3522'' ''{}'' FORECAST 1000,
               Get ''forecast:48.8566,2.3522'' FORECAST 2000 2000 2001,
               Set ''forecast:51.5074,-0.1278'' ''{}'' FORECAST 3000] = Inr s
          \<and> int (length (typeEntries FORECAST (cache s))) \<le> 500)"
  using capacity_bound [of FORECAST "\<lparr>cfg_ttl = 3600000, maxSize = 500, cleanupInterval = 900000\<rparr>"
      "[Set ''forecast:48.8566,2.3522'' ''{}'' FORECAST 1000,
        Get ''forecast:48.8566,2.3522'' FORECAST 2000 2000 2001,
        Set ''forecast:51.5074,-0.1278'' ''{}'' FORECAST 3000]" json_size]
  by (simp add: configs_new type_defs)

subsection \<open>C2: the scope of an invalidation\<close>

text \<open>
  C2 fails on the code. \<^verbatim>\<open>invalidate\<close> deletes every key that contains the pattern
  anywhere (\<^verbatim>\<open>key.includes(pattern)\<close>), where \<^verbatim>\<open>ensureCapacity\<close> tells the type of a key
  by its prefix (\<^verbatim>\<open>key.startsWith(type + ':')\<close>). The pattern \<^verbatim>\<open>forecast:\<close> occurs in
  every key of the type \<open>hourly_forecast\<close>, so \<^verbatim>\<open>invalidateByType(FORECAST)\<close> on the store
  with the forecast and the hourly forecast of Paris deletes both entries. In the same
  way the pattern \<^verbatim>\<open>8.8566,2.3522\<close> of the location \<open>(8.8566, 2.3522)\<close> occurs in the key of
  Paris, \<open>(48.8566, 2.3522)\<close>, so invalidating the one location deletes the entry of the
  other; the pattern is computed in double arithmetic, from the numbers that the
  literals \<open>8.8566\<close> and \<open>2.3522\<close> denote. What holds is in \<open>invalidate_pattern\<close>,
  \<open>invalidateByType_removes_type\<close> and \<open>invalidate_keeps\<close>: exactly the keys that contain
  the pattern are removed.
\<close>

theorem invalidation_overreach:
  "run json_size new_WeatherCache
     [Set ''forecast:48.8566,2.3522'' ''[]'' FORECAST 1000,
      Set ''hourly_forecast:48.8566,2.3522'' ''[]'' HOURLY_FORECAST 1000] = Inr paris_forecasts
   \<and> map_of (cache paris_forecasts) ''hourly_forecast:48.8566,2.3522'' \<noteq> None
   \<and> invalidateByType paris_forecasts FORECAST = (2, paris_forecasts\<lparr>cache := []\<rparr>)
   \<and> run json_size new_WeatherCache
         [Set paris_key ''{}'' CURRENT_WEATHER 1000, Set london_key ''[]'' FORECAST 2000]
       = Inr two_cities
   \<and> map_of (cache two_cities) ''current_weather:48.8566,2.3522'' \<noteq> None
   \<and> other_lat = to_double 8.8566
   \<and> paris_lat = to_double 48.8566
   \<and> paris_lon = to_double 2.3522
   \<and> Math_round (double_times other_lat 10000) \<noteq> Math_round (double_times paris_lat 10000)
   \<and> invalidateByLocation double_times double_divide numberToString4 two_cities
         other_lat paris_lon
       = (1, two_cities\<lparr>cache := [(london_key, london_entry)]\<rparr>)"
proof -
  have a: "map_of (cache paris_forecasts) ''hourly_forecast:48.8566,2.3522'' \<noteq> None"
    by (simp add: paris_forecasts_def)
  have b: "invalidateByType paris_forecasts FORECAST = (2, paris_forecasts\<lparr>cache := []\<rparr>)"
    by (simp add: invalidateByType_def invalidate_pattern paris_forecasts_def FORECAST_def)
  have c: "map_of (cache two_cities) ''current_weather:48.8566,2.3522'' \<noteq> None"
    by (simp add: city_defs)
  have d: "Math_round (double_times other_lat 10000) \<noteq> Math_round (double_times paris_lat 10000)"
    by (simp add: near_grid_round[OF other_lat_near] near_grid_round[OF paris_lat_near])
  have e: "invalidateByLocation double_times double_divide numberToString4 two_cities
             other_lat paris_lon
       = (1, two_cities\<lparr>cache := [(london_key, london_entry)]\<rparr>)"
    unfolding invalidateByLocation_def Let_def coordinate_texts
    by (simp add: invalidate_pattern city_defs)
  from paris_forecasts_reached a b two_cities_reached c other_lat_def paris_lat_def paris_lon_def d e
  show ?thesis by (intro conjI)
qed

subsection \<open>C3: time to live\<close>

text \<open>
  C3. Let the store hold, under \<open>key\<close>, an entry written at time \<open>T\<close> with time to live
  \<open>D\<close> (it was neither evicted nor invalidated). A \<^verbatim>\<open>get\<close> that reads the clock at
  \<open>now\<close> with \<open>now - T \<le> D\<close> returns the payload. A \<^verbatim>\<open>get\<close> with \<open>now - T > D\<close> returns
  \<^verbatim>\<open>null\<close>, deletes the entry, and counts one miss and no hit. A sweep at time \<open>sweep\<close>
  leaves exactly the entries that are not expired at \<open>sweep\<close>, in their order. The keys
  of a \<^verbatim>\<open>Map\<close> are distinct.
\<close>

theorem ttl_correctness:
  assumes "map_of (cache s) key = Some e"
      and "timestamp e = T"
      and "ttl e = D"
      and "distinct (map fst (cache s))"
  shows "(now - T \<le> D \<longrightarrow> fst (get s key ty start now fin) = Some (data e))
       \<and> (now - T > D \<longrightarrow>
            fst (get s key ty start now fin) = None
          \<and> map_of (cache (snd (get s key ty start now fin))) key = None
          \<and> misses (stats (snd (get s key ty start now fin))) = misses (stats s) + 1
          \<and> hits (stats (snd (get s key ty start now fin))) = hits (stats s))
       \<and> cache (cleanup s sweep)
            = filter (\<lambda>(k, e). \<not> (sweep - timestamp e > ttl e)) (cache s)"
proof (intro conjI impI)
  assume "now - T \<le> D"
  then show "fst (get s key ty start now fin) = Some (data e)"
    using assms(1,2,3) by (simp add: get_hit)
next
  assume late: "D < now - T"
  then have g: "get s key ty start now fin =
     (None, s\<lparr>cache := AList.delete key (cache s),
              stats := (stats s)\<lparr>misses := misses (stats s) + 1,
                              totalAccessTime := totalAccessTime (stats s) + (fin - start),
                              stats_accessCount := stats_accessCount (stats s) + 1\<rparr>\<rparr>)"
    using assms(1,2,3) by (simp add: get_expired)
  show "fst (get s key ty start now fin) = None" by (simp add: g)
  show "map_of (cache (snd (get s key ty start now fin))) key = None"
    by (simp add: g delete_conv')
  show "misses (stats (snd (get s key ty start now fin))) = misses (stats s) + 1" by (simp add: g)
  show "hits (stats (snd (get s key ty start now fin))) = hits (stats s)" by (simp add: g)
next
  show "cache (cleanup s sweep) = filter (\<lambda>(k, e). \<not> (sweep - timestamp e > ttl e)) (cache s)"
    using assms(4) by (rule cleanup_filter)
qed

theorem ttl_correctness_witness:
  "map_of (cache two_cities) paris_key = Some paris_entry
   \<and> timestamp paris_entry = 1000
   \<and> ttl paris_entry = 600000
   \<and> distinct (map fst (cache two_cities))
   \<and> (601000 :: int) - 1000 \<le> 600000
   \<and> fst (get two_cities paris_key CURRENT_WEATHER 601000 601000 601000) = Some ''{}''
   \<and> (601001 :: int) - 1000 > 600000
   \<and> fst (get two_cities paris_key CURRENT_WEATHER 601001 601001 601001) = None
   \<and> map_of (cache (snd (get two_cities paris_key CURRENT_WEATHER 601001 601001 601001))) paris_key = None
   \<and> misses (stats (snd (get two_cities paris_key CURRENT_WEATHER 601001 601001 601001))) = 1
   \<and> cache (cleanup two_cities 601001) = [(london_key, london_entry)]"
  using ttl_correctness [where s = two_cities and key = paris_key and e = paris_entry
          and T = 1000 and D = 600000 and now = 601000 and sweep = 601001
          and ty = CURRENT_WEATHER and start = 601000 and fin = 601000]
        ttl_correctness [where s = two_cities and key = paris_key and e = paris_entry
          and T = 1000 and D = 600000 and now = 601001 and sweep = 601001
          and ty = CURRENT_WEATHER and start = 601001 and fin = 601001]
  by (simp add: city_defs new_WeatherCache_def)

subsection \<open>C4: the least recently used entry of the type is evicted\<close>

text \<open>
  C4. Let the type \<open>t\<close> be at capacity: the number of entries whose key starts with \<open>t:\<close>
  equals its \<open>maxSize\<close>. Then \<^verbatim>\<open>set\<close> for \<open>t\<close> deletes one key \<open>vk\<close> and stores the new
  entry. The entry under \<open>vk\<close> is an entry of type \<open>t\<close> with the least \<open>lastAccess\<close> among
  the entries of that type, and among those with the least value it is the first in the
  order of the map (every earlier entry of the type has a strictly greater
  \<open>lastAccess\<close>). With a new key the store is the old one without \<open>vk\<close>, followed by the
  new entry. Every other key keeps its entry; in particular no entry whose key does not
  start with \<open>t:\<close> is removed, and the keys of another configured type do not start
  with \<open>t:\<close> (\<open>configured_types_differ\<close>).
\<close>

theorem lru_selection:
  assumes cfg: "map_of (configs s) t = Some cfg"
      and full: "int (length (typeEntries t (cache s))) = maxSize cfg"
      and pos: "1 \<le> maxSize cfg"
  shows "\<exists>pre vk ve post s'.
           typeEntries t (cache s) = pre @ (vk, ve) # post
         \<and> (\<forall>(k, e) \<in> set pre. lastAccess ve < lastAccess e)
         \<and> (\<forall>(k, e) \<in> set post. lastAccess ve \<le> lastAccess e)
         \<and> startsWith vk (t @ '':'')
         \<and> set_entry est s key d t now = Inr s'
         \<and> cache s' = AList.update key (fresh_entry est cfg d now) (AList.delete vk (cache s))
         \<and> (map_of (cache s) key = None \<longrightarrow>
               cache s' = AList.delete vk (cache s) @ [(key, fresh_entry est cfg d now)])
         \<and> (\<forall>k. k \<noteq> vk \<longrightarrow> k \<noteq> key \<longrightarrow> map_of (cache s') k = map_of (cache s) k)
         \<and> (\<forall>k. \<not> startsWith k (t @ '':'') \<longrightarrow> k \<noteq> key \<longrightarrow> map_of (cache s') k = map_of (cache s) k)"
proof -
  have full': "maxSize cfg \<le> int (length (typeEntries t (cache s)))" using full by simp
  obtain pre v post where split: "typeEntries t (cache s) = pre @ v # post"
    and pre: "\<forall>p \<in> set pre. lastAccess (snd v) < lastAccess (snd p)"
    and post: "\<forall>p \<in> set post. lastAccess (snd v) \<le> lastAccess (snd p)"
    and res: "set_entry est s key d t now =
               Inr (s\<lparr>cache := AList.update key (fresh_entry est cfg d now)
                                  (AList.delete (fst v) (cache s))\<rparr>)"
    using set_entry_full[OF cfg full' pos, of est key d now] by blast
  let ?E = "fresh_entry est cfg d now"
  let ?s' = "s\<lparr>cache := AList.update key ?E (AList.delete (fst v) (cache s))\<rparr>"
  have a: "typeEntries t (cache s) = pre @ (fst v, snd v) # post" using split by simp
  have b: "\<forall>(k, e) \<in> set pre. lastAccess (snd v) < lastAccess e" using pre by auto
  have c: "\<forall>(k, e) \<in> set post. lastAccess (snd v) \<le> lastAccess e" using post by auto
  have "(fst v, snd v) \<in> set (typeEntries t (cache s))" by (simp add: split)
  then have d: "startsWith (fst v) (t @ '':'')" by (rule typeEntries_startsWith)
  have e: "cache ?s' = AList.update key ?E (AList.delete (fst v) (cache s))" by simp
  have f: "map_of (cache s) key = None \<longrightarrow>
             cache ?s' = AList.delete (fst v) (cache s) @ [(key, ?E)]"
  proof
    assume "map_of (cache s) key = None"
    then have "key \<notin> fst ` set (cache s)" by (simp add: map_of_eq_None_iff)
    then have "key \<notin> fst ` set (AList.delete (fst v) (cache s))"
      using dom_delete_subset[of "fst v" "cache s"] by blast
    then have "AList.update key ?E (AList.delete (fst v) (cache s))
                 = AList.delete (fst v) (cache s) @ [(key, ?E)]"
      by (rule update_absent)
    then show "cache ?s' = AList.delete (fst v) (cache s) @ [(key, ?E)]" by simp
  qed
  have g: "\<forall>k. k \<noteq> fst v \<longrightarrow> k \<noteq> key \<longrightarrow> map_of (cache ?s') k = map_of (cache s) k"
    by (simp add: update_conv' delete_conv')
  have h: "\<forall>k. \<not> startsWith k (t @ '':'') \<longrightarrow> k \<noteq> key \<longrightarrow> map_of (cache ?s') k = map_of (cache s) k"
  proof (intro allI impI)
    fix k
    assume "\<not> startsWith k (t @ '':'')" and ne: "k \<noteq> key"
    then have "k \<noteq> fst v" using d by auto
    then show "map_of (cache ?s') k = map_of (cache s) k" using g ne by blast
  qed
  have "typeEntries t (cache s) = pre @ (fst v, snd v) # post
         \<and> (\<forall>(k, e) \<in> set pre. lastAccess (snd v) < lastAccess e)
         \<and> (\<forall>(k, e) \<in> set post. lastAccess (snd v) \<le> lastAccess e)
         \<and> startsWith (fst v) (t @ '':'')
         \<and> set_entry est s key d t now = Inr ?s'
         \<and> cache ?s' = AList.update key ?E (AList.delete (fst v) (cache s))
         \<and> (map_of (cache s) key = None \<longrightarrow>
               cache ?s' = AList.delete (fst v) (cache s) @ [(key, ?E)])
         \<and> (\<forall>k. k \<noteq> fst v \<longrightarrow> k \<noteq> key \<longrightarrow> map_of (cache ?s') k = map_of (cache s) k)
         \<and> (\<forall>k. \<not> startsWith k (t @ '':'') \<longrightarrow> k \<noteq> key \<longrightarrow> map_of (cache ?s') k = map_of (cache s) k)"
    using a b c d res e f g h by (intro conjI)
  then show ?thesis by (intro exI)
qed

text \<open>
  The store with 300 hourly forecasts is at capacity, and a \<^verbatim>\<open>set\<close> for Paris evicts.
\<close>

theorem lru_selection_witness:
  "map_of (configs full_hourly) HOURLY_FORECAST
     = Some \<lparr>cfg_ttl = 1800000, maxSize = 300, cleanupInterval = 600000\<rparr>
   \<and> int (length (typeEntries HOURLY_FORECAST (cache full_hourly))) = 300
   \<and> (\<exists>pre vk ve post s'.
         typeEntries HOURLY_FORECAST (cache full_hourly) = pre @ (vk, ve) # post
       \<and> (\<forall>(k, e) \<in> set pre. lastAccess ve < lastAccess e)
       \<and> (\<forall>(k, e) \<in> set post. lastAccess ve \<le> lastAccess e)
       \<and> startsWith vk (HOURLY_FORECAST @ '':'')
       \<and> set_entry json_size full_hourly ''hourly_forecast:48.8566,2.3522'' ''[]''
             HOURLY_FORECAST 1000 = Inr s'
       \<and> cache s' = AList.update ''hourly_forecast:48.8566,2.3522''
             \<lparr>data = ''[]'', timestamp = 1000, ttl = 1800000, accessCount = 0,
              lastAccess = 1000, entry_size = 2\<rparr>
             (AList.delete vk (cache full_hourly)))"
proof -
  let ?cfg = "\<lparr>cfg_ttl = 1800000, maxSize = 300, cleanupInterval = 600000\<rparr>"
  let ?key = "''hourly_forecast:48.8566,2.3522''"
  have h1: "map_of (configs full_hourly) HOURLY_FORECAST = Some ?cfg"
    by (rule configs_full_hourly)
  have h2: "int (length (typeEntries HOURLY_FORECAST (cache full_hourly))) = maxSize ?cfg"
    by (simp add: typeEntries_full_hourly length_full_hourly)
  have h3: "1 \<le> maxSize ?cfg" by simp
  have E: "fresh_entry json_size ?cfg ''[]'' 1000
             = \<lparr>data = ''[]'', timestamp = 1000, ttl = 1800000, accessCount = 0,
                lastAccess = 1000, entry_size = 2\<rparr>"
    by (simp add: json_size_def)
  obtain pre vk ve post s' where
        a: "typeEntries HOURLY_FORECAST (cache full_hourly) = pre @ (vk, ve) # post"
    and b: "\<forall>(k, e) \<in> set pre. lastAccess ve < lastAccess e"
    and c: "\<forall>(k, e) \<in> set post. lastAccess ve \<le> lastAccess e"
    and d: "startsWith vk (HOURLY_FORECAST @ '':'')"
    and e: "set_entry json_size full_hourly ?key ''[]'' HOURLY_FORECAST 1000 = Inr s'"
    and f: "cache s' = AList.update ?key (fresh_entry json_size ?cfg ''[]'' 1000)
                         (AList.delete vk (cache full_hourly))"
    using lru_selection [OF h1 h2 h3, of json_size ?key "''[]''" 1000]
    by (elim exE conjE)
  have f': "cache s' = AList.update ?key
             \<lparr>data = ''[]'', timestamp = 1000, ttl = 1800000, accessCount = 0,
              lastAccess = 1000, entry_size = 2\<rparr>
             (AList.delete vk (cache full_hourly))"
    using f by (simp only: E)
  have h2': "int (length (typeEntries HOURLY_FORECAST (cache full_hourly))) = 300"
    using h2 by simp
  from a b c d e f' have "\<exists>pre vk ve post s'.
         typeEntries HOURLY_FORECAST (cache full_hourly) = pre @ (vk, ve) # post
       \<and> (\<forall>(k, e) \<in> set pre. lastAccess ve < lastAccess e)
       \<and> (\<forall>(k, e) \<in> set post. lastAccess ve \<le> lastAccess e)
       \<and> startsWith vk (HOURLY_FORECAST @ '':'')
       \<and> set_entry json_size full_hourly ?key ''[]'' HOURLY_FORECAST 1000 = Inr s'
       \<and> cache s' = AList.update ?key
             \<lparr>data = ''[]'', timestamp = 1000, ttl = 1800000, accessCount = 0,
              lastAccess = 1000, entry_size = 2\<rparr>
             (AList.delete vk (cache full_hourly))"
    by (intro exI conjI)
  with h1 h2' show ?thesis by (intro conjI)
qed

subsection \<open>C5: which coordinates share a key\<close>

text \<open>
  C5, as stated, fails. \<^verbatim>\<open>generateKey\<close> is a function, so identical inputs give the
  identical key; but coordinates that differ only beyond the fourth decimal need not
  give the same key, because \<^verbatim>\<open>Math.round\<close> rounds to the nearest value with four
  decimals and does not cut the further decimals off. The latitudes \<open>48.8566\<close> and
  \<open>48.85666\<close> differ by less than \<open>0.0001\<close> and agree in their first four decimals;
  with the longitude \<open>2.3522\<close> and no parameters the code builds the keys
  \<^verbatim>\<open>current_weather:48.8566,2.3522\<close> and \<^verbatim>\<open>current_weather:48.8567,2.3522\<close>, so a
  \<^verbatim>\<open>get\<close> with the second latitude does not find what a \<^verbatim>\<open>set\<close> with the first one
  stored.
\<close>

theorem rounding_collapse_counterexample:
  "paris_lat = to_double 48.8566
   \<and> past_paris_lat = to_double 48.85666
   \<and> \<bar>(48.85666 :: real) - 48.8566\<bar> < 0.0001
   \<and> \<lfloor>(48.85666 :: real) * 10000\<rfloor> = \<lfloor>(48.8566 :: real) * 10000\<rfloor>
   \<and> generateKey double_times double_divide numberToString4 plain md5_known
        \<lparr>latitude = paris_lat, longitude = paris_lon, ctype = CURRENT_WEATHER,
         parameters = None\<rparr>
     = ''current_weather:48.8566,2.3522''
   \<and> generateKey double_times double_divide numberToString4 plain md5_known
        \<lparr>latitude = past_paris_lat, longitude = paris_lon, ctype = CURRENT_WEATHER,
         parameters = None\<rparr>
     = ''current_weather:48.8567,2.3522''
   \<and> generateKey double_times double_divide numberToString4 plain md5_known
        \<lparr>latitude = past_paris_lat, longitude = paris_lon, ctype = CURRENT_WEATHER,
         parameters = None\<rparr>
     \<noteq> generateKey double_times double_divide numberToString4 plain md5_known
        \<lparr>latitude = paris_lat, longitude = paris_lon, ctype = CURRENT_WEATHER,
         parameters = None\<rparr>"
proof -
  have a: "\<bar>(48.85666 :: real) - 48.8566\<bar> < 0.0001" by simp
  have b: "\<lfloor>(48.85666 :: real) * 10000\<rfloor> = \<lfloor>(48.8566 :: real) * 10000\<rfloor>" by simp
  have c: "generateKey double_times double_divide numberToString4 plain md5_known
        \<lparr>latitude = past_paris_lat, longitude = paris_lon, ctype = CURRENT_WEATHER,
         parameters = None\<rparr>
     \<noteq> generateKey double_times double_divide numberToString4 plain md5_known
        \<lparr>latitude = paris_lat, longitude = paris_lon, ctype = CURRENT_WEATHER,
         parameters = None\<rparr>"
    by (simp only: key_paris key_past_paris) simp
  from paris_lat_def past_paris_lat_def a b key_paris key_past_paris c
  show ?thesis by (intro conjI)
qed

text \<open>
  C5, amended. Two inputs with the same type and the same parameters get the same key
  when, on each axis, both coordinates are within \<open>0.000049\<close> of the same value with
  four decimals, on a platform whose product \<^verbatim>\<open>x * 10000\<close> is within \<open>0.001\<close> of the
  exact product: then both products round to the same integer. This holds for every
  quotient, number printer, value printer and digest. Double arithmetic is such a
  platform for coordinates up to \<open>1000\<close> in absolute value (\<open>near_grid_double\<close>). The
  margin around the rounding boundary cannot be dropped: there the rounding error of the
  product decides, and \<open>48.80085\<close> and \<open>48.80091\<close>, whose exact products both round to
  \<open>488009\<close>, get the keys \<^verbatim>\<open>forecast:48.8008,2.3522\<close> and \<^verbatim>\<open>forecast:48.8009,2.3522\<close>
  (\<open>boundary_lat_rounds_down\<close>, \<open>boundary_keys\<close>).
\<close>

theorem generateKey_collapse:
  assumes "near_grid numberTimes (latitude p) n"
      and "near_grid numberTimes (latitude q) n"
      and "near_grid numberTimes (longitude p) m"
      and "near_grid numberTimes (longitude q) m"
      and "ctype p = ctype q"
      and "parameters p = parameters q"
  shows "generateKey numberTimes numberDivide numberToString toString md5hex p
       = generateKey numberTimes numberDivide numberToString toString md5hex q"
proof (rule generateKey_same_rounding)
  show "Math_round (numberTimes (latitude p) 10000) = Math_round (numberTimes (latitude q) 10000)"
    using near_grid_round[OF assms(1)] near_grid_round[OF assms(2)] by simp
  show "Math_round (numberTimes (longitude p) 10000) = Math_round (numberTimes (longitude q) 10000)"
    using near_grid_round[OF assms(3)] near_grid_round[OF assms(4)] by simp
  show "ctype p = ctype q" by (rule assms(5))
  show "parameters p = parameters q" by (rule assms(6))
qed

text \<open>
  The spec's example in double arithmetic: \<open>(48.8566, 2.3522)\<close> and
  \<open>(48.85661, 2.35219)\<close> with \<^verbatim>\<open>{unit: "celsius"}\<close> both give
  \<^verbatim>\<open>current_weather:48.8566,2.3522:d2fc24e0\<close>.
\<close>

theorem generateKey_collapse_witness:
  "near_grid double_times paris_lat 488566
   \<and> near_grid double_times near_paris_lat 488566
   \<and> near_grid double_times paris_lon 23522
   \<and> near_grid double_times near_paris_lon 23522
   \<and> generateKey double_times double_divide numberToString4 plain md5_known
        \<lparr>latitude = paris_lat, longitude = paris_lon, ctype = CURRENT_WEATHER,
         parameters = Some [(''unit'', ''celsius'')]\<rparr>
     = generateKey double_times double_divide numberToString4 plain md5_known
        \<lparr>latitude = near_paris_lat, longitude = near_paris_lon, ctype = CURRENT_WEATHER,
         parameters = Some [(''unit'', ''celsius'')]\<rparr>
   \<and> generateKey double_times double_divide numberToString4 plain md5_known
        \<lparr>latitude = near_paris_lat, longitude = near_paris_lon, ctype = CURRENT_WEATHER,
         parameters = Some [(''unit'', ''celsius'')]\<rparr>
     = ''current_weather:48.8566,2.3522:d2fc24e0''"
  using generateKey_collapse [where numberTimes = double_times and n = 488566 and m = 23522
      and p = "\<lparr>latitude = paris_lat, longitude = paris_lon, ctype = CURRENT_WEATHER,
                parameters = Some [(''unit'', ''celsius'')]\<rparr>"
      and q = "\<lparr>latitude = near_paris_lat, longitude = near_paris_lon, ctype = CURRENT_WEATHER,
                parameters = Some [(''unit'', ''celsius'')]\<rparr>"
      and numberDivide = double_divide and numberToString = numberToString4
      and toString = plain and md5hex = md5_known]
    paris_lat_near near_paris_lat_near paris_lon_near near_paris_lon_near key_near_paris
  by simp

subsection \<open>C6: an unknown cache type\<close>

text \<open>
  C6, as stated, fails: \<^verbatim>\<open>set\<close> with a cache type that has no configuration does not
  raise. At the cache the constructor builds, a \<^verbatim>\<open>set\<close> for the type \<open>air_quality\<close>
  returns normally and leaves the cache as it was.
\<close>

theorem set_unknown_type_counterexample:
  "map_of (configs (new_WeatherCache :: string WeatherCache)) ''air_quality'' = None
   \<and> set_entry json_size (new_WeatherCache :: string WeatherCache)
         ''air_quality:48.8566,2.3522'' ''{}'' ''air_quality'' 1000
       = Inr new_WeatherCache
   \<and> set_entry json_size (new_WeatherCache :: string WeatherCache)
         ''air_quality:48.8566,2.3522'' ''{}'' ''air_quality'' 1000
       \<noteq> Inl TypeError"
  by (simp add: set_entry_def configs_new type_defs)

text \<open>
  C6, amended. For a cache type without a configuration, \<^verbatim>\<open>set\<close> returns normally
  (the guard at the head of the method reports the type on the console and returns):
  nothing is stored, nothing is evicted, no statistic changes, and no default policy is
  applied.
\<close>

theorem set_unknown_type_returns:
  "map_of (configs s) cacheType = None \<Longrightarrow> set_entry estimateSize s key d cacheType now = Inr s"
  by (simp add: set_entry_def)

theorem set_unknown_type_returns_witness:
  "map_of (configs (new_WeatherCache :: string WeatherCache)) ''air_quality'' = None
   \<and> set_entry json_size (new_WeatherCache :: string WeatherCache)
         ''air_quality:48.8566,2.3522'' ''{}'' ''air_quality'' 1000
       = Inr new_WeatherCache"
  using set_unknown_type_returns [of "new_WeatherCache :: string WeatherCache" "''air_quality''"
      json_size "''air_quality:48.8566,2.3522''" "''{}''" 1000]
  by (simp add: configs_new type_defs)

subsection \<open>C7: overwriting a key\<close>

text \<open>
  C7 fails on the code when the type is at capacity. \<^verbatim>\<open>set\<close> calls
  \<^verbatim>\<open>ensureCapacity\<close> before it looks whether the key is already stored, so overwriting
  an existing key of a full type first evicts the least recently used entry of the type.
  In the store with 300 hourly forecasts, a \<^verbatim>\<open>set\<close> on the stored key
  \<^verbatim>\<open>hourly_forecast:0.0299,0\<close> replaces that entry, and it also deletes the entry under
  \<^verbatim>\<open>hourly_forecast:0,0\<close>: the store has 299 entries afterwards. Below the limit an
  overwrite changes that entry only (\<open>set_overwrites_with_room\<close>).
\<close>

theorem overwrite_at_capacity_evicts:
  "run json_size new_WeatherCache
     (map (\<lambda>i. Set (hourly_key i) ''{}'' HOURLY_FORECAST (int i)) [0..<300]) = Inr full_hourly
   \<and> map_of (cache full_hourly) ''hourly_forecast:0.0299,0'' \<noteq> None
   \<and> map_of (cache full_hourly) ''hourly_forecast:0,0'' \<noteq> None
   \<and> length (cache full_hourly) = 300
   \<and> set_entry json_size full_hourly ''hourly_forecast:0.0299,0'' ''[1]'' HOURLY_FORECAST 1000
       = Inr (full_hourly\<lparr>cache :=
                AList.update ''hourly_forecast:0.0299,0''
                  \<lparr>data = ''[1]'', timestamp = 1000, ttl = 1800000, accessCount = 0,
                   lastAccess = 1000, entry_size = 3\<rparr>
                  (AList.delete ''hourly_forecast:0,0'' (cache full_hourly))\<rparr>)
   \<and> map_of (AList.update ''hourly_forecast:0.0299,0''
                  \<lparr>data = ''[1]'', timestamp = 1000, ttl = 1800000, accessCount = 0,
                   lastAccess = 1000, entry_size = 3\<rparr>
                  (AList.delete ''hourly_forecast:0,0'' (cache full_hourly)))
         ''hourly_forecast:0,0'' = None
   \<and> length (AList.update ''hourly_forecast:0.0299,0''
                  \<lparr>data = ''[1]'', timestamp = 1000, ttl = 1800000, accessCount = 0,
                   lastAccess = 1000, entry_size = 3\<rparr>
                  (AList.delete ''hourly_forecast:0,0'' (cache full_hourly))) = 299"
proof -
  let ?key = "''hourly_forecast:0.0299,0''"
  let ?old = "''hourly_forecast:0,0''"
  let ?E = "\<lparr>data = ''[1]'', timestamp = 1000, ttl = 1800000, accessCount = 0,
             lastAccess = 1000, entry_size = 3\<rparr> :: string CacheEntry"
  have in299: "?key \<in> fst ` set (cache full_hourly)"
    using hourly_key_present[of 299] by (simp add: hourly_keys)
  have in0: "?old \<in> fst ` set (cache full_hourly)"
    using hourly_key_present[of 0] by (simp add: hourly_keys)
  have p1: "map_of (cache full_hourly) ?key \<noteq> None"
    using in299 by (simp add: map_of_eq_None_iff)
  have p2: "map_of (cache full_hourly) ?old \<noteq> None"
    using in0 by (simp add: map_of_eq_None_iff)
  have p3: "length (cache full_hourly) = 300" by (rule length_full_hourly)
  have p4: "set_entry json_size full_hourly ?key ''[1]'' HOURLY_FORECAST 1000
       = Inr (full_hourly\<lparr>cache := AList.update ?key ?E (AList.delete ?old (cache full_hourly))\<rparr>)"
    using ensureCapacity_full_hourly
    by (simp add: set_entry_def configs_full_hourly json_size_def hourly_keys)
  have p5: "map_of (AList.update ?key ?E (AList.delete ?old (cache full_hourly))) ?old = None"
    by (simp add: update_conv' delete_conv')
  have less: "Suc (length (AList.delete ?old (cache full_hourly))) = length (cache full_hourly)"
    using distinct_full_hourly in0 by (rule length_delete_distinct)
  have "?key \<in> fst ` set (AList.delete ?old (cache full_hourly))"
    using in299 by (intro key_in_delete) simp_all
  then have "length (AList.update ?key ?E (AList.delete ?old (cache full_hourly)))
               = length (AList.delete ?old (cache full_hourly))"
    by (rule length_update_present)
  then have p6: "length (AList.update ?key ?E (AList.delete ?old (cache full_hourly))) = 299"
    using less p3 by simp
  from full_hourly_reached p1 p2 p3 p4 p5 p6 show ?thesis by (intro conjI)
qed

subsection \<open>C8: hits, misses and the hit rate\<close>

text \<open>
  C8. The cache the constructor builds reports the hit rate 0, and so does every cache
  with \<open>hits + misses = 0\<close>. From the constructor's cache, a \<^verbatim>\<open>get\<close> on a key (a miss),
  a \<^verbatim>\<open>set\<close> on it for a configured type, and a \<^verbatim>\<open>get\<close> on it before the entry expires
  (a hit) leave \<open>hits = 1\<close>, \<open>misses = 1\<close> and the hit rate \<open>1/2\<close>.
\<close>

theorem hit_miss_accounting:
  assumes cfg: "map_of (configs (new_WeatherCache :: 'a WeatherCache)) t = Some cfg"
      and fresh: "now_hit - now_set \<le> cfg_ttl cfg"
  shows "hitRate (getStats (new_WeatherCache :: 'a WeatherCache)) = 0
       \<and> (\<forall>s :: 'a WeatherCache. hits (stats s) + misses (stats s) = 0 \<longrightarrow> hitRate (getStats s) = 0)
       \<and> (\<exists>s1 s2 s3.
             get (new_WeatherCache :: 'a WeatherCache) key t start_miss now_miss fin_miss = (None, s1)
           \<and> set_entry est s1 key d t now_set = Inr s2
           \<and> get s2 key t start_hit now_hit fin_hit = (Some d, s3)
           \<and> cs_hits (getStats s3) = 1
           \<and> cs_misses (getStats s3) = 1
           \<and> hitRate (getStats s3) = 1 / 2)"
proof (intro conjI allI impI)
  show "hitRate (getStats (new_WeatherCache :: 'a WeatherCache)) = 0"
    by (simp add: getStats_def new_WeatherCache_def)
next
  fix s :: "'a WeatherCache"
  assume "hits (stats s) + misses (stats s) = 0"
  then show "hitRate (getStats s) = 0" by (simp add: getStats_def)
next
  let ?new = "new_WeatherCache :: 'a WeatherCache"
  let ?s1 = "?new\<lparr>stats := (stats ?new)\<lparr>misses := misses (stats ?new) + 1,
                              totalAccessTime := totalAccessTime (stats ?new) + (fin_miss - start_miss),
                              stats_accessCount := stats_accessCount (stats ?new) + 1\<rparr>\<rparr>"
  let ?E = "fresh_entry est cfg d now_set"
  let ?s2 = "?s1\<lparr>cache := AList.update key ?E (cache ?s1)\<rparr>"
  have g1: "get ?new key t start_miss now_miss fin_miss = (None, ?s1)"
    by (rule get_absent) (simp add: new_WeatherCache_def)
  have pos: "1 \<le> maxSize cfg" using cfg by (rule configs_new_positive)
  have cfg1: "map_of (configs ?s1) t = Some cfg" using cfg by simp
  have room: "int (length (typeEntries t (cache ?s1))) < maxSize cfg"
    using pos by (simp add: new_WeatherCache_def typeEntries_def)
  have st: "set_entry est ?s1 key d t now_set = Inr ?s2"
    using set_entry_room[OF cfg1 room] .
  have look: "map_of (cache ?s2) key = Some ?E" by (simp add: update_conv')
  have "now_hit - timestamp ?E \<le> ttl ?E" using fresh by simp
  from get_hit[OF look this, of t start_hit fin_hit]
  obtain s3 where g3: "get ?s2 key t start_hit now_hit fin_hit = (Some d, s3)"
    and h3: "hits (stats s3) = 1" and m3: "misses (stats s3) = 1"
    by (simp add: new_WeatherCache_def)
  have "cs_hits (getStats s3) = 1 \<and> cs_misses (getStats s3) = 1 \<and> hitRate (getStats s3) = 1 / 2"
    using h3 m3 by (simp add: getStats_def)
  with g1 st g3 show "\<exists>s1 s2 s3.
             get ?new key t start_miss now_miss fin_miss = (None, s1)
           \<and> set_entry est s1 key d t now_set = Inr s2
           \<and> get s2 key t start_hit now_hit fin_hit = (Some d, s3)
           \<and> cs_hits (getStats s3) = 1
           \<and> cs_misses (getStats s3) = 1
           \<and> hitRate (getStats s3) = 1 / 2"
    by blast
qed

theorem hit_miss_accounting_witness:
  "map_of (configs (new_WeatherCache :: string WeatherCache)) CURRENT_WEATHER
     = Some \<lparr>cfg_ttl = 600000, maxSize = 1000, cleanupInterval = 300000\<rparr>
   \<and> (2000 :: int) - 1000 \<le> 600000
   \<and> hits (stats (new_WeatherCache :: string WeatherCache))
       + misses (stats (new_WeatherCache :: string WeatherCache)) = 0
   \<and> hitRate (getStats (new_WeatherCache :: string WeatherCache)) = 0
   \<and> (\<exists>s1 s2 s3.
         get (new_WeatherCache :: string WeatherCache) paris_key CURRENT_WEATHER 500 500 501 = (None, s1)
       \<and> set_entry json_size s1 paris_key ''{}'' CURRENT_WEATHER 1000 = Inr s2
       \<and> get s2 paris_key CURRENT_WEATHER 2000 2000 2001 = (Some ''{}'', s3)
       \<and> cs_hits (getStats s3) = 1
       \<and> cs_misses (getStats s3) = 1
       \<and> hitRate (getStats s3) = 1 / 2)"
  using hit_miss_accounting [where 'a = string and t = CURRENT_WEATHER
          and cfg = "\<lparr>cfg_ttl = 600000, maxSize = 1000, cleanupInterval = 300000\<rparr>"
          and now_hit = 2000 and now_set = 1000 and key = paris_key and start_miss = 500 and now_miss = 500
          and fin_miss = 501 and est = json_size and d = "''{}''" and start_hit = 2000 and fin_hit = 2001]
  by (simp add: configs_new type_defs new_WeatherCache_def[where 'a = string, THEN arg_cong[where f = stats]])

subsection \<open>C9: an entry is read no earlier than it was written\<close>

text \<open>
  C9. Start from the cache the constructor builds and make any sequence of \<^verbatim>\<open>set\<close> and
  \<^verbatim>\<open>get\<close> calls whose clock readings do not decrease. No call raises, and afterwards
  every entry of the store has \<open>timestamp \<le> lastAccess\<close>. Moreover, in the state reached,
  a \<^verbatim>\<open>set\<close> for a configured type stores an entry whose \<open>timestamp\<close> and \<open>lastAccess\<close>
  are both the time of the call, and a hit at a later time leaves \<open>timestamp\<close> as it
  was and moves \<open>lastAccess\<close> forward to the time of the hit.
\<close>

theorem recency_invariant:
  assumes "sorted (map call_now calls)"
  shows "\<exists>s. run est (new_WeatherCache :: 'a WeatherCache) calls = Inr s
           \<and> (\<forall>(k, e) \<in> set (cache s). timestamp e \<le> lastAccess e)
           \<and> (\<forall>key d ty cfg now s'.
                 map_of (configs s) ty = Some cfg \<longrightarrow>
                 set_entry est s key d ty now = Inr s' \<longrightarrow>
                 (\<exists>e. map_of (cache s') key = Some e \<and> timestamp e = now \<and> lastAccess e = now))
           \<and> (\<forall>key ty start now fin e.
                 calls \<noteq> [] \<longrightarrow> call_now (last calls) \<le> now \<longrightarrow>
                 map_of (cache s) key = Some e \<longrightarrow> now - timestamp e \<le> ttl e \<longrightarrow>
                 (\<exists>e'. map_of (cache (snd (get s key ty start now fin))) key = Some e'
                     \<and> timestamp e' = timestamp e
                     \<and> lastAccess e' = now
                     \<and> lastAccess e \<le> lastAccess e'))"
proof -
  let ?new = "new_WeatherCache :: 'a WeatherCache"
  have "\<exists>s. run est ?new calls = Inr s \<and> positive_limits s
          \<and> (calls = [] \<longrightarrow> cache s = [])
          \<and> (calls \<noteq> [] \<longrightarrow> recent (call_now (last calls)) s)"
  proof (cases calls)
    case Nil
    then show ?thesis by (simp add: positive_limits_new) (simp add: new_WeatherCache_def)
  next
    case (Cons c cs)
    have r0: "recent (call_now c) ?new" by (simp add: recent_def new_WeatherCache_def)
    have so: "sorted (call_now c # map call_now calls)" using assms Cons by simp
    obtain s where run: "run est ?new calls = Inr s"
      and rec: "recent (last (call_now c # map call_now calls)) s"
      and pl: "positive_limits s"
      using run_recent[OF positive_limits_new r0 so, of est] by blast
    have "last (call_now c # map call_now calls) = call_now (last calls)"
      using Cons by (simp add: last_map)
    then show ?thesis using run rec pl Cons by simp
  qed
  then obtain s where run: "run est ?new calls = Inr s" and pl: "positive_limits s"
    and emp: "calls = [] \<Longrightarrow> cache s = []"
    and rec: "calls \<noteq> [] \<Longrightarrow> recent (call_now (last calls)) s"
    by blast
  have inv: "\<forall>(k, e) \<in> set (cache s). timestamp e \<le> lastAccess e"
  proof (cases "calls = []")
    case True
    then show ?thesis using emp by simp
  next
    case False
    then show ?thesis using rec unfolding recent_def by blast
  qed
  have stores: "\<forall>key d ty cfg now s'.
                 map_of (configs s) ty = Some cfg \<longrightarrow>
                 set_entry est s key d ty now = Inr s' \<longrightarrow>
                 (\<exists>e. map_of (cache s') key = Some e \<and> timestamp e = now \<and> lastAccess e = now)"
  proof (intro allI impI)
    fix key d ty cfg now s'
    assume cfg: "map_of (configs s) ty = Some cfg"
      and res: "set_entry est s key d ty now = Inr s'"
    obtain c' where "set_entry est s key d ty now
               = Inr (s\<lparr>cache := AList.update key (fresh_entry est cfg d now) c'\<rparr>)"
      using set_entry_result[OF cfg positive_limitsD[OF pl cfg], of est key d now] by blast
    then have "map_of (cache s') key = Some (fresh_entry est cfg d now)"
      using res by (auto simp: update_conv')
    then show "\<exists>e. map_of (cache s') key = Some e \<and> timestamp e = now \<and> lastAccess e = now"
      by simp
  qed
  have moves: "\<forall>key ty start now fin e.
                 calls \<noteq> [] \<longrightarrow> call_now (last calls) \<le> now \<longrightarrow>
                 map_of (cache s) key = Some e \<longrightarrow> now - timestamp e \<le> ttl e \<longrightarrow>
                 (\<exists>e'. map_of (cache (snd (get s key ty start now fin))) key = Some e'
                     \<and> timestamp e' = timestamp e
                     \<and> lastAccess e' = now
                     \<and> lastAccess e \<le> lastAccess e')"
  proof (intro allI impI)
    fix key ty start now fin e
    assume ne: "calls \<noteq> []" and le: "call_now (last calls) \<le> now"
      and look: "map_of (cache s) key = Some e" and fresh: "now - timestamp e \<le> ttl e"
    have "lastAccess e \<le> call_now (last calls)"
      using rec[OF ne] map_of_SomeD[OF look] unfolding recent_def by blast
    then have "lastAccess e \<le> now" using le by linarith
    then show "\<exists>e'. map_of (cache (snd (get s key ty start now fin))) key = Some e'
                     \<and> timestamp e' = timestamp e
                     \<and> lastAccess e' = now
                     \<and> lastAccess e \<le> lastAccess e'"
      by (simp add: get_hit[OF look fresh] update_conv')
  qed
  show ?thesis using run inv stores moves by blast
qed

theorem recency_invariant_witness:
  "sorted (map call_now
      [Set paris_key ''{}'' CURRENT_WEATHER 1000, Get paris_key CURRENT_WEATHER 2000 2000 2001])
   \<and> (\<exists>s. run json_size new_WeatherCache
             [Set paris_key ''{}'' CURRENT_WEATHER 1000, Get paris_key CURRENT_WEATHER 2000 2000 2001]
           = Inr s
         \<and> cache s = [(paris_key, paris_entry\<lparr>accessCount := 1, lastAccess := 2000\<rparr>)]
         \<and> timestamp (paris_entry\<lparr>accessCount := 1, lastAccess := 2000\<rparr>)
             \<le> lastAccess (paris_entry\<lparr>accessCount := 1, lastAccess := 2000\<rparr>)
         \<and> (\<forall>(k, e) \<in> set (cache s). timestamp e \<le> lastAccess e))"
  using recency_invariant [of "[Set paris_key ''{}'' CURRENT_WEATHER 1000,
                                Get paris_key CURRENT_WEATHER 2000 2000 2001]" json_size]
        paris_read
  by (simp add: paris_entry_def)

subsection \<open>C10: an empty parameter object\<close>

text \<open>
  C10. With an empty parameter object \<^verbatim>\<open>generateKey\<close> returns the key it returns with
  the field omitted, and that key is the bare \<open>type:lat,lon\<close> with no hash suffix.
\<close>

theorem generateKey_empty_parameters:
  "generateKey numberTimes numberDivide numberToString toString md5hex
       (p\<lparr>parameters := Some []\<rparr>)
     = generateKey numberTimes numberDivide numberToString toString md5hex
         (p\<lparr>parameters := None\<rparr>)
   \<and> generateKey numberTimes numberDivide numberToString toString md5hex
       (p\<lparr>parameters := Some []\<rparr>)
     = ctype p @ '':''
       @ numberToString
           (numberDivide (real_of_int (Math_round (numberTimes (latitude p) 10000))) 10000)
       @ '',''
       @ numberToString
           (numberDivide (real_of_int (Math_round (numberTimes (longitude p) 10000))) 10000)"
  by (simp add: generateKey_def)

end
